theory Spec2Isabelle
  imports Complex_Main "HOL-Library.Multiset"
begin

section \<open>Conventions of the embedding\<close>

text \<open>
  The design window of the beam application (\<^verbatim>\<open>src/src/vigapp/ui/design_window.py\<close>) and
  the section view (\<^verbatim>\<open>src/vigapp/ui/view3d_window.py\<close>) are embedded as functions on
  explicit state records.

  \<^item> Python floats are real numbers: rounding, overflow and the special values \<^verbatim>\<open>inf\<close>
    and \<^verbatim>\<open>nan\<close> are not represented (nor the texts that \<^verbatim>\<open>float()\<close> reads as such).
    The exception is \<^verbatim>\<open>_calc_as_req\<close>, which is embedded a second time on binary64
    numbers: the sign of its result next to 0 is decided by the rounding.
  \<^item> A call that raises is the value \<open>Inl e\<close>. Python's float division raises
    \<^verbatim>\<open>ZeroDivisionError\<close> on a zero divisor, so every such division of the source is
    guarded in the model.
  \<^item> \<^verbatim>\<open>np.sqrt\<close> of a negative float does not raise, it returns \<^verbatim>\<open>nan\<close>; the model
    stops such a run with the outcome \<open>NotANumber\<close>, since no real number stands for
    what is computed afterwards. The source does not stop there: for \<open>f'c < 0\<close>
    \<^verbatim>\<open>_calc_as_limits\<close> returns \<^verbatim>\<open>(nan, as_max)\<close> and the pass goes on with \<^verbatim>\<open>nan\<close> as
    the minimum area. The statements about the limits are made for \<open>0 \<le> f'c\<close>.
  \<^item> The attributes that a pass recomputes (\<^verbatim>\<open>as_min\<close>, \<^verbatim>\<open>as_max\<close>, the raw areas, the
    labels) are results of the functions; the state is what the user edits: the fields,
    the combo boxes and the rows.
\<close>

datatype py_error =
  ValueError | KeyError | IndexError | ZeroDivisionError | OverflowError | NotANumber

section \<open>Bar catalogue\<close>

text \<open>
  \<^verbatim>\<open>BAR_DATA\<close> (area per diameter key) and \<^verbatim>\<open>DIAM_CM\<close> (diameter per key) are imported
  from \<^verbatim>\<open>models/constants.py\<close>; the two dictionaries are parameters of the model.
  Every read in the source is \<^verbatim>\<open>BAR_DATA.get(key, 0)\<close> or \<^verbatim>\<open>DIAM_CM.get(key, 0)\<close>.
\<close>

record catalog =
  BAR_DATA :: "string \<rightharpoonup> real"
  DIAM_CM :: "string \<rightharpoonup> real"

definition dict_get :: "('k \<rightharpoonup> 'v) \<Rightarrow> 'k \<Rightarrow> 'v \<Rightarrow> 'v" where
  "dict_get m k dflt = (case m k of None \<Rightarrow> dflt | Some v \<Rightarrow> v)"

definition area :: "catalog \<Rightarrow> string \<Rightarrow> real" where
  "area cat key = dict_get (BAR_DATA cat) key 0"

definition diameter :: "catalog \<Rightarrow> string \<Rightarrow> real" where
  "diameter cat key = dict_get (DIAM_CM cat) key 0"

section \<open>Required steel area\<close>

text \<open>The locals \<^verbatim>\<open>term\<close> and \<^verbatim>\<open>root\<close> (before its clamp) of \<^verbatim>\<open>_calc_as_req\<close>.\<close>

definition as_term :: "real \<Rightarrow> real \<Rightarrow> real \<Rightarrow> real \<Rightarrow> real" where
  "as_term fc b d fy = 1.7 * fc * b * d / (2 * fy)"

definition as_root :: "real \<Rightarrow> real \<Rightarrow> real \<Rightarrow> real \<Rightarrow> real \<Rightarrow> real \<Rightarrow> real" where
  "as_root Mu fc b d fy phi =
     (let Mu_kgcm = \<bar>Mu\<bar> * 100000
      in (2.89 * (fc * b * d)\<^sup>2) / (fy\<^sup>2) - (6.8 * fc * b * Mu_kgcm) / (phi * (fy\<^sup>2)))"

text \<open>
  \<^verbatim>\<open>_calc_as_req(Mu, fc, b, d, fy, phi)\<close>. The divisors are \<^verbatim>\<open>2 * fy\<close>, \<^verbatim>\<open>fy**2\<close> and
  \<^verbatim>\<open>phi * (fy**2)\<close>, met in this order. The moment is taken as a Python float like the
  other arguments (the moments come from outside the sources; with a numpy scalar the last
  division would give \<^verbatim>\<open>inf\<close> or \<^verbatim>\<open>nan\<close> at \<open>phi = 0\<close> instead of raising).
  The result is the value of the expression over the real numbers; \<open>calc_as_req_f64\<close>
  below is the same function on binary64 numbers, where every operation rounds,
  \<^verbatim>\<open>(fc * b * d) ** 2\<close> can overflow (and raise \<^verbatim>\<open>OverflowError\<close>) and \<^verbatim>\<open>fy**2\<close> can
  underflow to zero.
\<close>

definition calc_as_req :: "real \<Rightarrow> real \<Rightarrow> real \<Rightarrow> real \<Rightarrow> real \<Rightarrow> real \<Rightarrow> py_error + real" where
  "calc_as_req Mu fc b d fy phi =
     (if 2 * fy = 0 then Inl ZeroDivisionError
      else if fy\<^sup>2 = 0 then Inl ZeroDivisionError
      else if phi * (fy\<^sup>2) = 0 then Inl ZeroDivisionError
      else let term = as_term fc b d fy;
               root = as_root Mu fc b d fy phi;
               root = max root 0
           in Inr (term - 0.5 * sqrt root))"

section \<open>The required steel area in binary64\<close>

text \<open>
  Whether a result of \<^verbatim>\<open>_calc_as_req\<close> next to 0 is positive, zero or negative is decided
  by the rounding of its operations, which the real numbers of the previous section do not
  show. This section embeds the same function a second time, on binary64 numbers (IEEE 754
  double precision, round to nearest, ties to even): the floats of CPython and of numpy.

  A binary64 value is a finite number, an infinity or \<^verbatim>\<open>nan\<close>. The sign of a zero is not
  represented: no operation of \<^verbatim>\<open>_calc_as_req\<close> depends on it (Python's division raises on
  a zero divisor of either sign).
\<close>

datatype f64 = Num real | PosInf | NegInf | NaN

text \<open>\<open>pow2 e\<close> is 2 to the power \<open>e\<close>, for an integer \<open>e\<close> of either sign.\<close>

definition pow2 :: "int \<Rightarrow> real" where
  "pow2 e = (if 0 \<le> e then 2 ^ nat e else 1 / 2 ^ nat (- e))"

text \<open>The binade of \<open>x \<noteq> 0\<close>: the integer \<open>k\<close> with \<open>pow2 k \<le> |x| < pow2 (k + 1)\<close>.\<close>

definition binade :: "real \<Rightarrow> int" where
  "binade x = \<lfloor>log 2 \<bar>x\<bar>\<rfloor>"

text \<open>The nearest integer, a tie going to the even one.\<close>

definition round_even :: "real \<Rightarrow> int" where
  "round_even y =
     (let f = \<lfloor>y\<rfloor>; r = y - of_int f
      in if r < 1/2 then f else if 1/2 < r then f + 1 else if even f then f else f + 1)"

text \<open>
  The binary64 value of a real result. In the binade \<open>k\<close> the binary64 numbers are the
  multiples of \<open>pow2 (k - 52)\<close> (53 significant bits), and below \<open>pow2 (- 1022)\<close> the
  multiples of \<open>pow2 (- 1074)\<close> (subnormal numbers); a result that rounds to \<open>pow2 1024\<close>
  or beyond overflows to the infinity of its sign.
\<close>

definition rn :: "real \<Rightarrow> f64" where
  "rn x =
     (if x = 0 then Num 0
      else let e = max (binade x - 52) (- 1074);
               y = of_int (round_even (x / pow2 e)) * pow2 e
           in if 2 ^ 1024 \<le> \<bar>y\<bar> then (if 0 < x then PosInf else NegInf) else Num y)"

fun sign_of :: "f64 \<Rightarrow> real" where
  "sign_of (Num x) = sgn x"
| "sign_of PosInf = 1"
| "sign_of NegInf = - 1"
| "sign_of NaN = 0"

definition inf_of :: "real \<Rightarrow> f64" where
  "inf_of s = (if 0 < s then PosInf else NegInf)"

text \<open>
  \<^verbatim>\<open>x * y\<close> on floats (of Python or of numpy) does not raise: an overflow gives an infinity,
  and an infinity times zero gives \<^verbatim>\<open>nan\<close>.
\<close>

fun f_mul :: "f64 \<Rightarrow> f64 \<Rightarrow> f64" where
  "f_mul NaN v = NaN"
| "f_mul u NaN = NaN"
| "f_mul (Num x) (Num y) = rn (x * y)"
| "f_mul u v = (if sign_of u * sign_of v = 0 then NaN else inf_of (sign_of u * sign_of v))"

text \<open>\<^verbatim>\<open>x - y\<close> on floats does not raise; the difference of equal infinities is \<^verbatim>\<open>nan\<close>.\<close>

fun f_sub :: "f64 \<Rightarrow> f64 \<Rightarrow> f64" where
  "f_sub NaN v = NaN"
| "f_sub u NaN = NaN"
| "f_sub (Num x) (Num y) = rn (x - y)"
| "f_sub (Num x) PosInf = NegInf"
| "f_sub (Num x) NegInf = PosInf"
| "f_sub PosInf PosInf = NaN"
| "f_sub NegInf NegInf = NaN"
| "f_sub PosInf v = PosInf"
| "f_sub NegInf v = NegInf"

text \<open>
  \<^verbatim>\<open>x / y\<close> on Python floats raises \<^verbatim>\<open>ZeroDivisionError\<close> when \<^verbatim>\<open>y\<close> is zero, whatever
  \<^verbatim>\<open>x\<close> is; otherwise it is the IEEE quotient.
\<close>

fun f_div :: "f64 \<Rightarrow> f64 \<Rightarrow> py_error + f64" where
  "f_div u (Num y) =
     (if y = 0 then Inl ZeroDivisionError
      else case u of Num x \<Rightarrow> Inr (rn (x / y)) | NaN \<Rightarrow> Inr NaN
           | _ \<Rightarrow> Inr (inf_of (sign_of u * sgn y)))"
| "f_div NaN v = Inr NaN"
| "f_div u NaN = Inr NaN"
| "f_div (Num x) v = Inr (Num 0)"
| "f_div u v = Inr NaN"

text \<open>
  \<^verbatim>\<open>x ** 2\<close> on a Python float is C's \<^verbatim>\<open>pow(x, 2.0)\<close>, taken here as the correctly
  rounded square (it is the exact square whenever that is a binary64 number). CPython raises
  \<^verbatim>\<open>OverflowError\<close> when the result of a finite \<^verbatim>\<open>x\<close> overflows; an underflow gives
  \<^verbatim>\<open>0.0\<close>.
\<close>

fun f_sq :: "f64 \<Rightarrow> py_error + f64" where
  "f_sq (Num x) = (case rn (x * x) of Num y \<Rightarrow> Inr (Num y) | _ \<Rightarrow> Inl OverflowError)"
| "f_sq NaN = Inr NaN"
| "f_sq u = Inr PosInf"

text \<open>\<^verbatim>\<open>abs(x)\<close> on a float.\<close>

fun f_abs :: "f64 \<Rightarrow> f64" where
  "f_abs (Num x) = Num \<bar>x\<bar>"
| "f_abs NaN = NaN"
| "f_abs u = PosInf"

text \<open>
  \<^verbatim>\<open>max(root, 0)\<close>: Python's \<^verbatim>\<open>max\<close> keeps its first argument unless \<^verbatim>\<open>0 > root\<close>, so
  \<^verbatim>\<open>nan\<close> is kept.
\<close>

fun py_max0 :: "f64 \<Rightarrow> f64" where
  "py_max0 (Num x) = (if 0 > x then Num 0 else Num x)"
| "py_max0 NegInf = Num 0"
| "py_max0 u = u"

text \<open>\<^verbatim>\<open>np.sqrt\<close>: correctly rounded, \<^verbatim>\<open>nan\<close> on a negative argument, never raising.\<close>

fun np_sqrt :: "f64 \<Rightarrow> f64" where
  "np_sqrt (Num x) = (if x < 0 then NaN else rn (sqrt x))"
| "np_sqrt PosInf = PosInf"
| "np_sqrt u = NaN"

text \<open>
  The local \<^verbatim>\<open>term\<close> of \<^verbatim>\<open>_calc_as_req\<close>: \<^verbatim>\<open>1.7 * fc * b * d / (2 * fy)\<close>, the products
  taken from left to right. A decimal literal of the source is the binary64 number nearest
  to it; the integer literals are represented exactly.
\<close>

definition as_term_f64 :: "f64 \<Rightarrow> f64 \<Rightarrow> f64 \<Rightarrow> f64 \<Rightarrow> py_error + f64" where
  "as_term_f64 fc b d fy = f_div (f_mul (f_mul (f_mul (rn 1.7) fc) b) d) (f_mul (Num 2) fy)"

text \<open>
  The local \<^verbatim>\<open>root\<close> before its clamp. Python evaluates the operands in the order
  \<^verbatim>\<open>(fc * b * d) ** 2\<close>, \<^verbatim>\<open>fy**2\<close>, the first quotient, the second numerator,
  \<^verbatim>\<open>phi * (fy**2)\<close>, the second quotient; the second \<^verbatim>\<open>fy**2\<close> has the value of the first.
\<close>

definition as_root_f64 :: "f64 \<Rightarrow> f64 \<Rightarrow> f64 \<Rightarrow> f64 \<Rightarrow> f64 \<Rightarrow> f64 \<Rightarrow> py_error + f64" where
  "as_root_f64 Mu fc b d fy phi =
     (let Mu_kgcm = f_mul (f_abs Mu) (Num 100000)
      in case f_sq (f_mul (f_mul fc b) d) of Inl e \<Rightarrow> Inl e | Inr sq \<Rightarrow>
        (case f_sq fy of Inl e \<Rightarrow> Inl e | Inr fy2 \<Rightarrow>
          (case f_div (f_mul (rn 2.89) sq) fy2 of Inl e \<Rightarrow> Inl e | Inr q1 \<Rightarrow>
            (case f_div (f_mul (f_mul (f_mul (rn 6.8) fc) b) Mu_kgcm) (f_mul phi fy2) of
               Inl e \<Rightarrow> Inl e | Inr q2 \<Rightarrow> Inr (f_sub q1 q2)))))"

text \<open>
  \<^verbatim>\<open>_calc_as_req(Mu, fc, b, d, fy, phi)\<close> on binary64 arguments (the moment a Python float,
  as in \<open>calc_as_req\<close>): \<^verbatim>\<open>term - 0.5 * np.sqrt(max(root, 0))\<close>.
\<close>

definition calc_as_req_f64 :: "f64 \<Rightarrow> f64 \<Rightarrow> f64 \<Rightarrow> f64 \<Rightarrow> f64 \<Rightarrow> f64 \<Rightarrow> py_error + f64" where
  "calc_as_req_f64 Mu fc b d fy phi =
     (case as_term_f64 fc b d fy of Inl e \<Rightarrow> Inl e | Inr term \<Rightarrow>
       (case as_root_f64 Mu fc b d fy phi of Inl e \<Rightarrow> Inl e | Inr radicand \<Rightarrow>
          Inr (f_sub term (f_mul (Num 0.5) (np_sqrt (py_max0 radicand))))))"

text \<open>A value that is neither a negative number nor the negative infinity.\<close>

fun not_negative :: "f64 \<Rightarrow> bool" where
  "not_negative (Num x) = (0 \<le> x)"
| "not_negative NegInf = False"
| "not_negative u = True"

section \<open>Reinforcement limits and the clamp\<close>

text \<open>The local \<^verbatim>\<open>beta1\<close> of \<^verbatim>\<open>_calc_as_limits\<close> (the same expression in \<^verbatim>\<open>_build_memoria\<close>).\<close>

definition beta1 :: "real \<Rightarrow> real" where
  "beta1 fc = (if fc \<le> 280 then 0.85 else 0.85 - ((fc - 280) / 70) * 0.05)"

text \<open>
  \<^verbatim>\<open>_calc_as_limits(fc, fy, b, d)\<close> returns the pair \<^verbatim>\<open>(as_min, as_max)\<close>. The quotient
  \<^verbatim>\<open>np.sqrt(fc) / fy\<close> is a numpy division and does not raise; the Python divisions by
  \<^verbatim>\<open>fy\<close> and \<^verbatim>\<open>6000 + fy\<close> in the next statement do. For \<open>fc < 0\<close> the source returns
  \<^verbatim>\<open>(nan, as_max)\<close> without raising; the outcome \<open>NotANumber\<close> stands for that return, and
  the model does not follow the pass beyond it.
\<close>

definition calc_as_limits :: "real \<Rightarrow> real \<Rightarrow> real \<Rightarrow> real \<Rightarrow> py_error + real \<times> real" where
  "calc_as_limits fc fy b d =
     (if fy = 0 \<or> 6000 + fy = 0 then Inl ZeroDivisionError
      else if fc < 0 then Inl NotANumber
      else let as_min = 0.7 * (sqrt fc / fy) * b * d;
               pmax = 0.75 * ((0.85 * fc * beta1 fc / fy) * (6000 / (6000 + fy)));
               as_max = pmax * b * d
           in Inr (as_min, as_max))"

text \<open>\<^verbatim>\<open>np.clip(x, lo, hi)\<close> is \<^verbatim>\<open>minimum(maximum(x, lo), hi)\<close>; the bounds are not compared.\<close>

definition np_clip :: "real \<Rightarrow> real \<Rightarrow> real \<Rightarrow> real" where
  "np_clip x lo hi = min (max x lo) hi"

section \<open>The design window\<close>

text \<open>
  The text of a combo box as \<^verbatim>\<open>int()\<close> reads it: empty, a decimal integer, or any other
  text (on which \<^verbatim>\<open>int()\<close> raises \<^verbatim>\<open>ValueError\<close>).
\<close>

datatype combo_text = NoText | IntText int | OtherText

text \<open>
  \<^verbatim>\<open>int(row["qty"].currentText()) if row["qty"].currentText() else 0\<close> inside
  \<^verbatim>\<open>try ... except ValueError: n = 0\<close>.
\<close>

fun qty_int :: "combo_text \<Rightarrow> int" where
  "qty_int NoText = 0"
| "qty_int (IntText n) = n"
| "qty_int OtherText = 0"

text \<open>
  \<^verbatim>\<open>int(row["capa"].currentText()) if row["capa"].currentText() else 1\<close>, outside any
  \<^verbatim>\<open>try\<close>.
\<close>

fun capa_int :: "combo_text \<Rightarrow> py_error + int" where
  "capa_int NoText = Inr 1"
| "capa_int (IntText n) = Inr n"
| "capa_int OtherText = Inl ValueError"

text \<open>
  One entry of \<^verbatim>\<open>rebar_rows[idx]\<close>: the dictionary with the keys \<^verbatim>\<open>qty\<close>, \<^verbatim>\<open>dia\<close>,
  \<^verbatim>\<open>capa\<close> and \<^verbatim>\<open>widget\<close>. A widget is an object compared by identity; the model
  numbers the objects.
\<close>

record row =
  qty :: combo_text
  dia :: string
  capa :: combo_text
  widget :: nat

text \<open>
  The attributes of \<^verbatim>\<open>DesignWindow\<close> that the calculations read. A line edit is held
  as the outcome of \<^verbatim>\<open>float(text)\<close>: \<open>None\<close> when it raises \<^verbatim>\<open>ValueError\<close>.
\<close>

record design_window =
  b_edit :: "real option"
  h_edit :: "real option"
  r_edit :: "real option"
  fc_edit :: "real option"
  fy_edit :: "real option"
  phi_edit :: "real option"
  cb_estribo :: string
  cb_varilla :: string
  rebar_rows :: "row list list"
  mn_corr :: "real list"
  mp_corr :: "real list"

definition row_area :: "catalog \<Rightarrow> row \<Rightarrow> real" where
  "row_area cat rw = real_of_int (qty_int (qty rw)) * area cat (dia rw)"

subsection \<open>Effective depth\<close>

text \<open>
  The body of the row loop of \<^verbatim>\<open>calc_effective_depth\<close>. The dictionaries
  \<^verbatim>\<open>layer_areas\<close> and \<^verbatim>\<open>layer_diams\<close> have the keys 1 to 4 throughout; they are
  functions on the integers, and a read at any other key is the \<^verbatim>\<open>KeyError\<close>.
\<close>

definition scan_row ::
  "catalog \<Rightarrow> (int \<Rightarrow> real) \<times> (int \<Rightarrow> real) \<Rightarrow> row \<Rightarrow> py_error + (int \<Rightarrow> real) \<times> (int \<Rightarrow> real)" where
  "scan_row cat tabs rw =
     (let layer_areas = fst tabs;
          layer_diams = snd tabs;
          dia_key = dia rw;
          a = row_area cat rw
      in case capa_int (capa rw) of
           Inl e \<Rightarrow> Inl e
         | Inr layer \<Rightarrow>
             if layer < 1 \<or> 4 < layer then Inl KeyError
             else if a > layer_areas layer
               then Inr (layer_areas(layer := a), layer_diams(layer := diameter cat dia_key))
               else Inr (layer_areas, layer_diams))"

fun scan_rows ::
  "catalog \<Rightarrow> (int \<Rightarrow> real) \<times> (int \<Rightarrow> real) \<Rightarrow> row list \<Rightarrow> py_error + (int \<Rightarrow> real) \<times> (int \<Rightarrow> real)" where
  "scan_rows cat tabs [] = Inr tabs"
| "scan_rows cat tabs (rw # rws) =
     (case scan_row cat tabs rw of
        Inl e \<Rightarrow> Inl e
      | Inr tabs' \<Rightarrow> scan_rows cat tabs' rws)"

text \<open>The loop \<^verbatim>\<open>for layer_num in range(1, 5)\<close> that finds \<^verbatim>\<open>max_layer\<close>.\<close>

definition detect_max_layer :: "(int \<Rightarrow> real) \<Rightarrow> int" where
  "detect_max_layer layer_areas =
     fold (\<lambda>layer_num max_layer.
             if layer_areas layer_num > 0 then max max_layer layer_num else max_layer)
       [1, 2, 3, 4] 1"

text \<open>The nested conditional that computes \<^verbatim>\<open>d\<close> from the two tables.\<close>

definition layered_depth :: "real \<Rightarrow> real \<Rightarrow> real \<Rightarrow> (int \<Rightarrow> real) \<Rightarrow> (int \<Rightarrow> real) \<Rightarrow> real" where
  "layered_depth h r de layer_areas layer_diams =
     (let max_layer = detect_max_layer layer_areas;
          db1 = layer_diams 1;
          d1 = h - r - de - 0.5 * db1
      in if max_layer = 1 then d1
         else
           let db2 = layer_diams 2;
               d2 = h - r - de - db1 - 2.5 - 0.5 * db2
           in if max_layer = 2 then
                (let As1 = layer_areas 1;
                     As2 = layer_areas 2
                 in if As1 + As2 \<noteq> 0 then (d1 * As1 + d2 * As2) / (As1 + As2) else d1)
              else
                let db3 = layer_diams 3;
                    d3 = h - r - de - db1 - 2.5 - db2 - 2.5 - 0.5 * db3
                in if max_layer = 3 then
                     (let As1 = layer_areas 1;
                          As2 = layer_areas 2;
                          As3 = layer_areas 3;
                          s = As1 + As2 + As3
                      in if s \<noteq> 0 then (d1 * As1 + d2 * As2 + d3 * As3) / s else d1)
                   else
                     (let d4 = d3 - 3;
                          As1 = layer_areas 1;
                          As2 = layer_areas 2;
                          As3 = layer_areas 3;
                          As4 = layer_areas 4;
                          s = As1 + As2 + As3 + As4
                      in if s \<noteq> 0 then (d1 * As1 + d2 * As2 + d3 * As3 + d4 * As4) / s
                         else d1))"

text \<open>
  \<^verbatim>\<open>calc_effective_depth\<close>: \<^verbatim>\<open>0.0\<close> when \<^verbatim>\<open>h\<close> or \<^verbatim>\<open>r\<close> is no number, else the
  rows of all sections are scanned in order.
\<close>

definition calc_effective_depth :: "catalog \<Rightarrow> design_window \<Rightarrow> py_error + real" where
  "calc_effective_depth cat st =
     (case h_edit st of
        None \<Rightarrow> Inr 0
      | Some h \<Rightarrow>
          (case r_edit st of
             None \<Rightarrow> Inr 0
           | Some r \<Rightarrow>
               let de = diameter cat (cb_estribo st);
                   db = diameter cat (cb_varilla st)
               in case scan_rows cat (\<lambda>k. 0, \<lambda>k. db) (concat (rebar_rows st)) of
                    Inl e \<Rightarrow> Inl e
                  | Inr tabs \<Rightarrow> Inr (layered_depth h r de (fst tabs) (snd tabs))))"

subsection \<open>Required areas of the six sections\<close>

fun raw_areas :: "real list \<Rightarrow> real \<Rightarrow> real \<Rightarrow> real \<Rightarrow> real \<Rightarrow> real \<Rightarrow> py_error + real list" where
  "raw_areas [] fc b d fy phi = Inr []"
| "raw_areas (m # ms) fc b d fy phi =
     (case calc_as_req m fc b d fy phi of
        Inl e \<Rightarrow> Inl e
      | Inr a \<Rightarrow>
          (case raw_areas ms fc b d fy phi of
             Inl e \<Rightarrow> Inl e
           | Inr as \<Rightarrow> Inr (a # as)))"

text \<open>
  What \<^verbatim>\<open>_required_areas\<close> assigns to the attributes \<^verbatim>\<open>as_min\<close>, \<^verbatim>\<open>as_max\<close>,
  \<^verbatim>\<open>as_n_raw\<close> and \<^verbatim>\<open>as_p_raw\<close>, and what it returns (\<open>as_n\<close>, \<open>as_p\<close>). The attributes
  are left as they were (\<open>kept = None\<close>) on the early return.
\<close>

record kept_areas =
  as_min :: real
  as_max :: real
  as_n_raw :: "real list"
  as_p_raw :: "real list"

record required =
  as_n :: "real list"
  as_p :: "real list"
  kept :: "kept_areas option"

definition zero_areas :: required where
  "zero_areas = \<lparr>as_n = [0, 0, 0], as_p = [0, 0, 0], kept = None\<rparr>"

definition areas_for :: "catalog \<Rightarrow> design_window \<Rightarrow> real \<Rightarrow> real \<Rightarrow> real \<Rightarrow> real \<Rightarrow> py_error + required" where
  "areas_for cat st b fc fy phi =
     (case calc_effective_depth cat st of
        Inl e \<Rightarrow> Inl e
      | Inr d \<Rightarrow>
          (case calc_as_limits fc fy b d of
             Inl e \<Rightarrow> Inl e
           | Inr lims \<Rightarrow>
               (case raw_areas (mn_corr st) fc b d fy phi of
                  Inl e \<Rightarrow> Inl e
                | Inr n_raw \<Rightarrow>
                    (case raw_areas (mp_corr st) fc b d fy phi of
                       Inl e \<Rightarrow> Inl e
                     | Inr p_raw \<Rightarrow>
                         Inr \<lparr>as_n = map (\<lambda>x. np_clip x (fst lims) (snd lims)) n_raw,
                              as_p = map (\<lambda>x. np_clip x (fst lims) (snd lims)) p_raw,
                              kept = Some \<lparr>as_min = fst lims, as_max = snd lims,
                                           as_n_raw = n_raw, as_p_raw = p_raw\<rparr>\<rparr>))))"

text \<open>
  \<^verbatim>\<open>_required_areas\<close>: the four \<^verbatim>\<open>float()\<close> conversions are tried in the order
  \<^verbatim>\<open>b\<close>, \<^verbatim>\<open>f'c\<close>, \<^verbatim>\<open>fy\<close>, \<^verbatim>\<open>phi\<close>; any \<^verbatim>\<open>ValueError\<close> returns two arrays of three zeros.
\<close>

definition required_areas :: "catalog \<Rightarrow> design_window \<Rightarrow> py_error + required" where
  "required_areas cat st =
     (case b_edit st of
        None \<Rightarrow> Inr zero_areas
      | Some b \<Rightarrow>
          (case fc_edit st of
             None \<Rightarrow> Inr zero_areas
           | Some fc \<Rightarrow>
               (case fy_edit st of
                  None \<Rightarrow> Inr zero_areas
                | Some fy \<Rightarrow>
                    (case phi_edit st of
                       None \<Rightarrow> Inr zero_areas
                     | Some phi \<Rightarrow> areas_for cat st b fc fy phi))))"

subsection \<open>Provided areas and the width check\<close>

text \<open>\<^verbatim>\<open>_design_areas\<close>: one total per section.\<close>

definition design_areas :: "catalog \<Rightarrow> design_window \<Rightarrow> real list" where
  "design_areas cat st =
     map (\<lambda>rows. fold (\<lambda>rw total. total + row_area cat rw) rows 0) (rebar_rows st)"

text \<open>
  The section loop of \<^verbatim>\<open>update_design_as\<close>. The dictionary \<^verbatim>\<open>layers\<close> has the two keys
  1 and 2 only, each with a bar count (key \<^verbatim>\<open>n\<close>) and a diameter sum (key \<^verbatim>\<open>sum_d\<close>).
\<close>

record layer_data =
  n_bars :: int
  sum_d :: real

record section_acc =
  acc_total :: real
  layer1 :: layer_data
  layer2 :: layer_data

definition add_bars :: "layer_data \<Rightarrow> int \<Rightarrow> real \<Rightarrow> layer_data" where
  "add_bars ldata k dia_cm = \<lparr>n_bars = n_bars ldata + k, sum_d = sum_d ldata + real_of_int k * dia_cm\<rparr>"

definition tally_row :: "catalog \<Rightarrow> section_acc \<Rightarrow> row \<Rightarrow> py_error + section_acc" where
  "tally_row cat acc rw =
     (let k = qty_int (qty rw);
          dia_key = dia rw;
          dia_cm = diameter cat dia_key;
          a = area cat dia_key
      in case capa_int (capa rw) of
           Inl e \<Rightarrow> Inl e
         | Inr layer \<Rightarrow>
             let acc = acc\<lparr>acc_total := acc_total acc + real_of_int k * a\<rparr>
             in if layer = 1 then Inr (acc\<lparr>layer1 := add_bars (layer1 acc) k dia_cm\<rparr>)
                else if layer = 2 then Inr (acc\<lparr>layer2 := add_bars (layer2 acc) k dia_cm\<rparr>)
                else Inr acc)"

fun tally_rows :: "catalog \<Rightarrow> section_acc \<Rightarrow> row list \<Rightarrow> py_error + section_acc" where
  "tally_rows cat acc [] = Inr acc"
| "tally_rows cat acc (rw # rws) =
     (case tally_row cat acc rw of
        Inl e \<Rightarrow> Inl e
      | Inr acc' \<Rightarrow> tally_rows cat acc' rws)"

definition empty_acc :: section_acc where
  "empty_acc = \<lparr>acc_total = 0, layer1 = \<lparr>n_bars = 0, sum_d = 0\<rparr>,
                 layer2 = \<lparr>n_bars = 0, sum_d = 0\<rparr>\<rparr>"

text \<open>\<^verbatim>\<open>b_l = 2 * r + 2 * de + spacing + ldata["sum_d"]\<close> with \<^verbatim>\<open>spacing = max(n_l - 1, 0) * 2.5\<close>.\<close>

definition layer_width :: "real \<Rightarrow> real \<Rightarrow> layer_data \<Rightarrow> real" where
  "layer_width r de ldata =
     (let n_l = n_bars ldata;
          spacing = real_of_int (max (n_l - 1) 0) * 2.5
      in 2 * r + 2 * de + spacing + sum_d ldata)"

text \<open>
  The lists \<^verbatim>\<open>totals\<close> and \<^verbatim>\<open>base_reqs\<close> after the section loop. A section adds no
  entry to \<^verbatim>\<open>base_reqs\<close> when \<^verbatim>\<open>r\<close> is no number (\<^verbatim>\<open>continue\<close>).
\<close>

fun tally_sections ::
  "catalog \<Rightarrow> real option \<Rightarrow> real \<Rightarrow> row list list \<Rightarrow> py_error + real list \<times> real list" where
  "tally_sections cat r_opt de [] = Inr ([], [])"
| "tally_sections cat r_opt de (rows # rest) =
     (case tally_rows cat empty_acc rows of
        Inl e \<Rightarrow> Inl e
      | Inr acc \<Rightarrow>
          (case tally_sections cat r_opt de rest of
             Inl e \<Rightarrow> Inl e
           | Inr res \<Rightarrow>
               Inr (acc_total acc # fst res,
                    (case r_opt of
                       None \<Rightarrow> snd res
                     | Some r \<Rightarrow>
                         max (layer_width r de (layer1 acc)) (layer_width r de (layer2 acc))
                           # snd res))))"

text \<open>Python's \<^verbatim>\<open>max\<close> of a list: \<^verbatim>\<open>ValueError\<close> on the empty list.\<close>

fun py_max :: "real list \<Rightarrow> py_error + real" where
  "py_max [] = Inl ValueError"
| "py_max (x # xs) = Inr (fold max xs x)"

text \<open>
  What \<^verbatim>\<open>update_design_as\<close> shows: the totals, their sum, the text of
  \<^verbatim>\<open>base_req_label\<close> (as a number) and of \<^verbatim>\<open>base_msg_label\<close> when they are set, and the
  status of each section.
\<close>

record design_out =
  totals :: "real list"
  as_total :: real
  max_base :: "real option"
  base_msg :: "string option"
  statuses :: "string list"

definition base_message :: "real option \<Rightarrow> real \<Rightarrow> string" where
  "base_message b_opt mb =
     (case b_opt of
        None \<Rightarrow> []
      | Some b_val \<Rightarrow> if mb \<le> b_val then ''OK'' else ''Aumentar base o capa'')"

definition update_design_as :: "catalog \<Rightarrow> design_window \<Rightarrow> py_error + design_out" where
  "update_design_as cat st =
     (case required_areas cat st of
        Inl e \<Rightarrow> Inl e
      | Inr req \<Rightarrow>
          (case tally_sections cat (r_edit st) (diameter cat (cb_estribo st)) (rebar_rows st) of
             Inl e \<Rightarrow> Inl e
           | Inr res \<Rightarrow>
               let as_reqs = as_n req @ as_p req;
                   tots = fst res;
                   base_reqs = snd res;
                   out = \<lparr>totals = tots,
                          as_total = sum_list tots,
                          max_base = None,
                          base_msg = None,
                          statuses = map (\<lambda>p. if fst p \<ge> snd p then ''OK'' else ''NO OK'')
                                       (zip tots as_reqs)\<rparr>
               in if base_reqs = [] then Inr out
                  else case py_max base_reqs of
                         Inl e \<Rightarrow> Inl e
                       | Inr mb \<Rightarrow>
                           Inr (out\<lparr>max_base := Some mb,
                                     base_msg := Some (base_message (b_edit st) mb)\<rparr>)))"

subsection \<open>Adding and removing rows\<close>

text \<open>
  \<^verbatim>\<open>QWidget()\<close> creates an object distinct from every widget of the window. The model
  takes the successor of the largest number in use.
\<close>

definition fresh_widget :: "design_window \<Rightarrow> nat" where
  "fresh_widget st = Suc (fold max (map widget (concat (rebar_rows st))) 0)"

definition new_row :: "nat \<Rightarrow> row" where
  \<open>new_row w = \<lparr>qty = IntText 2, dia = ''1/2"'', capa = IntText 1, widget = w\<rparr>\<close>

text \<open>
  The two handlers return nothing; the model returns the window after the call and the
  exception the call ended with, if any.
\<close>

definition add_rebar_row :: "nat \<Rightarrow> design_window \<Rightarrow> design_window \<times> py_error option" where
  "add_rebar_row idx st =
     (if length (rebar_rows st) \<le> idx then (st, Some IndexError)
      else if length (rebar_rows st ! idx) \<ge> 4 then (st, None)
      else (st\<lparr>rebar_rows :=
                 (rebar_rows st)[idx := rebar_rows st ! idx @ [new_row (fresh_widget st)]]\<rparr>,
            None))"

definition raised :: "py_error + 'a \<Rightarrow> py_error option" where
  "raised res = (case res of Inl e \<Rightarrow> Some e | Inr v \<Rightarrow> None)"

definition remove_rebar_row ::
  "catalog \<Rightarrow> nat \<Rightarrow> nat \<Rightarrow> design_window \<Rightarrow> design_window \<times> py_error option" where
  "remove_rebar_row cat idx w st =
     (if length (rebar_rows st) \<le> idx then (st, Some IndexError)
      else if length (rebar_rows st ! idx) \<le> 1 then (st, None)
      else
        let st' = st\<lparr>rebar_rows :=
                       (rebar_rows st)[idx := filter (\<lambda>r. widget r \<noteq> w) (rebar_rows st ! idx)]\<rparr>
        in (st', raised (update_design_as cat st')))"

text \<open>
  The window as \<^verbatim>\<open>_build_ui\<close> leaves it: the default texts, six sections, and one call
  of \<^verbatim>\<open>_add_rebar_row(i)\<close> for each.
\<close>

definition build_ui :: "real list \<Rightarrow> real list \<Rightarrow> design_window" where
  \<open>build_ui mn mp =
     fold (\<lambda>i st. fst (add_rebar_row i st)) [0..<6]
       \<lparr>b_edit = Some 30, h_edit = Some 50, r_edit = Some 4, fc_edit = Some 210,
        fy_edit = Some 4200, phi_edit = Some 0.9,
        cb_estribo = ''3/8"'', cb_varilla = ''5/8"'',
        rebar_rows = replicate 6 [], mn_corr = mn, mp_corr = mp\<rparr>\<close>

text \<open>The two buttons of a row, as operations on the window.\<close>

datatype row_op = AddRow nat | RemoveRow nat nat

fun apply_row_op :: "catalog \<Rightarrow> row_op \<Rightarrow> design_window \<Rightarrow> design_window" where
  "apply_row_op cat (AddRow idx) st = fst (add_rebar_row idx st)"
| "apply_row_op cat (RemoveRow idx w) st = fst (remove_rebar_row cat idx w st)"

section \<open>The section view\<close>

text \<open>
  The attributes of \<^verbatim>\<open>View3DWindow\<close> that its handlers read and write: the design window
  it was opened on and the bar orders of the three negative and the three positive
  sections (lists of diameter keys).
\<close>

record view3d_window =
  design :: design_window
  neg_orders :: "string list list"
  pos_orders :: "string list list"

text \<open>\<^verbatim>\<open>_collect_order(idx)\<close>: the keys of the rows of a section, each repeated \<^verbatim>\<open>qty\<close> times.\<close>

definition collect_order :: "catalog \<Rightarrow> design_window \<Rightarrow> nat \<Rightarrow> py_error + string list" where
  "collect_order cat dw idx =
     (if length (rebar_rows dw) \<le> idx then Inl IndexError
      else Inr (concat (map (\<lambda>rw.
                  let q = qty_int (qty rw);
                      dia_key = dia rw
                  in if q \<le> 0 \<or> DIAM_CM cat dia_key = None then []
                     else replicate (nat q) dia_key)
                (rebar_rows dw ! idx))))"

text \<open>\<^verbatim>\<open>[self._collect_order(k + off) for k in range(3)]\<close>.\<close>

definition collect_orders :: "catalog \<Rightarrow> design_window \<Rightarrow> nat \<Rightarrow> py_error + string list list" where
  "collect_orders cat dw off =
     (case collect_order cat dw off of
        Inl e \<Rightarrow> Inl e
      | Inr o0 \<Rightarrow>
          (case collect_order cat dw (off + 1) of
             Inl e \<Rightarrow> Inl e
           | Inr o1 \<Rightarrow>
               (case collect_order cat dw (off + 2) of
                  Inl e \<Rightarrow> Inl e
                | Inr o2 \<Rightarrow> Inr [o0, o1, o2])))"

text \<open>
  \<^verbatim>\<open>_collect_bars(idx)\<close>: the bars of a section grouped by layer. A row with no bars or
  with diameter 0 is skipped before its layer is read.
\<close>

definition collect_row ::
  "catalog \<Rightarrow> (int \<rightharpoonup> (real \<times> string) list) \<Rightarrow> row \<Rightarrow> py_error + (int \<rightharpoonup> (real \<times> string) list)" where
  "collect_row cat layers rw =
     (let q = qty_int (qty rw);
          dia_key = dia rw;
          dia_cm = diameter cat dia_key
      in if q \<le> 0 \<or> dia_cm = 0 then Inr layers
         else case capa_int (capa rw) of
                Inl e \<Rightarrow> Inl e
              | Inr layer \<Rightarrow>
                  Inr (layers(layer \<mapsto> dict_get layers layer [] @ replicate (nat q) (dia_cm, dia_key))))"

fun collect_rows ::
  "catalog \<Rightarrow> (int \<rightharpoonup> (real \<times> string) list) \<Rightarrow> row list \<Rightarrow> py_error + (int \<rightharpoonup> (real \<times> string) list)" where
  "collect_rows cat layers [] = Inr layers"
| "collect_rows cat layers (rw # rws) =
     (case collect_row cat layers rw of
        Inl e \<Rightarrow> Inl e
      | Inr layers' \<Rightarrow> collect_rows cat layers' rws)"

definition collect_bars ::
  "catalog \<Rightarrow> design_window \<Rightarrow> nat \<Rightarrow> py_error + (int \<rightharpoonup> (real \<times> string) list)" where
  "collect_bars cat dw idx =
     (if length (rebar_rows dw) \<le> idx then Inl IndexError
      else collect_rows cat Map.empty (rebar_rows dw ! idx))"

fun collect_all_bars ::
  "catalog \<Rightarrow> design_window \<Rightarrow> nat list \<Rightarrow> py_error + (int \<rightharpoonup> (real \<times> string) list) list" where
  "collect_all_bars cat dw [] = Inr []"
| "collect_all_bars cat dw (idx # idxs) =
     (case collect_bars cat dw idx of
        Inl e \<Rightarrow> Inl e
      | Inr layers \<Rightarrow>
          (case collect_all_bars cat dw idxs of
             Inl e \<Rightarrow> Inl e
           | Inr rest \<Rightarrow> Inr (layers # rest)))"

text \<open>An order list is regenerated from the design when it is empty.\<close>

definition refill ::
  "catalog \<Rightarrow> design_window \<Rightarrow> nat \<Rightarrow> string list list \<Rightarrow> py_error + string list list" where
  "refill cat dw off orders = (if orders = [] then collect_orders cat dw off else Inr orders)"

text \<open>
  \<^verbatim>\<open>draw_views()\<close>, as far as it changes the window's attributes: the window when the call
  ends, by a return or by an exception. The drawing itself (matplotlib and the helpers of
  \<^verbatim>\<open>graphics/utilities.py\<close>) writes to the canvas only and is left out.
\<close>

definition draw_views :: "catalog \<Rightarrow> view3d_window \<Rightarrow> view3d_window" where
  "draw_views cat v =
     (let dw = design v
      in if b_edit dw = None \<or> h_edit dw = None \<or> r_edit dw = None then v
         else case collect_all_bars cat dw [0, 1, 2, 3, 4, 5] of
                Inl e \<Rightarrow> v
              | Inr layers \<Rightarrow>
                  (case refill cat dw 0 (neg_orders v) of
                     Inl e \<Rightarrow> v
                   | Inr negs \<Rightarrow>
                       (case refill cat dw 3 (pos_orders v) of
                          Inl e \<Rightarrow> v\<lparr>neg_orders := negs\<rparr>
                        | Inr poss \<Rightarrow> v\<lparr>neg_orders := negs, pos_orders := poss\<rparr>)))"

definition orders_of :: "string \<Rightarrow> view3d_window \<Rightarrow> string list list" where
  "orders_of sign v = (if sign = ''pos'' then pos_orders v else neg_orders v)"

definition set_orders :: "string \<Rightarrow> string list list \<Rightarrow> view3d_window \<Rightarrow> view3d_window" where
  "set_orders sign orders v =
     (if sign = ''pos'' then v\<lparr>pos_orders := orders\<rparr> else v\<lparr>neg_orders := orders\<rparr>)"

text \<open>
  \<^verbatim>\<open>swap_bars(sign, section, i, j)\<close>. The slice assignment \<^verbatim>\<open>orders[:] = ...\<close> fills the
  attribute in place, so the filled list stays when the call returns early afterwards.
\<close>

definition swap_bars ::
  "catalog \<Rightarrow> string \<Rightarrow> int \<Rightarrow> int \<Rightarrow> int \<Rightarrow> view3d_window \<Rightarrow> view3d_window" where
  "swap_bars cat sign section i j v =
     (if sign \<noteq> ''pos'' \<and> sign \<noteq> ''neg'' then v
      else if \<not> (0 \<le> section \<and> section < 3) then v
      else case refill cat (design v) (if sign = ''pos'' then 3 else 0) (orders_of sign v) of
             Inl e \<Rightarrow> v
           | Inr orders \<Rightarrow>
               if length orders \<le> nat section then set_orders sign orders v
               else
                 let lst = orders ! nat section
                 in if \<not> (0 \<le> i \<and> i < int (length lst) \<and> 0 \<le> j \<and> j < int (length lst))
                    then set_orders sign orders v
                    else draw_views cat
                           (set_orders sign
                              (orders[nat section := lst[nat i := lst ! nat j, nat j := lst ! nat i]])
                              v))"

text \<open>
  \<^verbatim>\<open>move_bar(sign, section, idx, new_idx)\<close>: \<^verbatim>\<open>lst.pop(idx)\<close> followed by
  \<^verbatim>\<open>lst.insert(new_idx, val)\<close>.
\<close>

definition move_bar ::
  "catalog \<Rightarrow> string \<Rightarrow> int \<Rightarrow> int \<Rightarrow> int \<Rightarrow> view3d_window \<Rightarrow> view3d_window" where
  "move_bar cat sign section idx new_idx v =
     (if sign \<noteq> ''pos'' \<and> sign \<noteq> ''neg'' then v
      else if \<not> (0 \<le> section \<and> section < 3) then v
      else case refill cat (design v) (if sign = ''pos'' then 3 else 0) (orders_of sign v) of
             Inl e \<Rightarrow> v
           | Inr orders \<Rightarrow>
               if length orders \<le> nat section then set_orders sign orders v
               else
                 let lst = orders ! nat section
                 in if \<not> (0 \<le> idx \<and> idx < int (length lst)) then set_orders sign orders v
                    else
                      let new_idx = max 0 (min new_idx (int (length lst) - 1))
                      in if idx = new_idx then set_orders sign orders v
                         else
                           let val = lst ! nat idx;
                               popped = take (nat idx) lst @ drop (Suc (nat idx)) lst;
                               moved = take (nat new_idx) popped @ [val] @ drop (nat new_idx) popped
                           in draw_views cat (set_orders sign (orders[nat section := moved]) v))"

text \<open>
  The order list of a section as the next drawing reads it: the stored list, or the
  collected one when none is stored (\<^verbatim>\<open>draw_views\<close> collects it then); empty when the
  section has no list.
\<close>

definition shown_order :: "catalog \<Rightarrow> string \<Rightarrow> int \<Rightarrow> view3d_window \<Rightarrow> string list" where
  "shown_order cat sign section v =
     (case refill cat (design v) (if sign = ''pos'' then 3 else 0) (orders_of sign v) of
        Inl e \<Rightarrow> []
      | Inr orders \<Rightarrow> if length orders \<le> nat section then [] else orders ! nat section)"

section \<open>The quantities of the specification\<close>

text \<open>
  The rows assigned to a layer, and the quantities that sections 4.2 and 4.4 of the
  specification name, written from its words for comparison with the code.
\<close>

definition entries_of_layer :: "row list \<Rightarrow> int \<Rightarrow> row list" where
  "entries_of_layer rws k = filter (\<lambda>rw. capa_int (capa rw) = Inr k) rws"

text \<open>The largest area of a single entry of the layer; 0 when no entry has a positive area.\<close>

definition largest_entry_area :: "catalog \<Rightarrow> row list \<Rightarrow> int \<Rightarrow> real" where
  "largest_entry_area cat rws k = fold max (map (row_area cat) (entries_of_layer rws k)) 0"

text \<open>The sum of quantity times catalogue area over every entry of the layer.\<close>

definition total_layer_area :: "catalog \<Rightarrow> row list \<Rightarrow> int \<Rightarrow> real" where
  "total_layer_area cat rws k = sum_list (map (row_area cat) (entries_of_layer rws k))"

text \<open>
  The representative diameter of a layer: the diameter of the first entry that has the
  layer's largest area, and the diameter \<open>db\<close> of the longitudinal bar when the layer has
  no entry of positive area.
\<close>

definition leading_diameter :: "catalog \<Rightarrow> real \<Rightarrow> row list \<Rightarrow> int \<Rightarrow> real" where
  "leading_diameter cat db rws k =
     (if largest_entry_area cat rws k > 0
      then (case find (\<lambda>rw. row_area cat rw = largest_entry_area cat rws k) (entries_of_layer rws k) of
              None \<Rightarrow> db
            | Some rw \<Rightarrow> diameter cat (dia rw))
      else db)"

text \<open>The centroid depths \<open>d1\<close> to \<open>d4\<close> of section 4.2.\<close>

definition centroid_depth :: "real \<Rightarrow> real \<Rightarrow> real \<Rightarrow> (int \<Rightarrow> real) \<Rightarrow> int \<Rightarrow> real" where
  "centroid_depth h r de dbs k =
     (if k = 1 then h - r - de - 0.5 * dbs 1
      else if k = 2 then h - r - de - dbs 1 - 2.5 - 0.5 * dbs 2
      else if k = 3 then h - r - de - dbs 1 - 2.5 - dbs 2 - 2.5 - 0.5 * dbs 3
      else (h - r - de - dbs 1 - 2.5 - dbs 2 - 2.5 - 0.5 * dbs 3) - 3)"

text \<open>The highest of the layers 1 to 4 that has a positive weight, 1 when none has.\<close>

definition highest_layer :: "(int \<Rightarrow> real) \<Rightarrow> int" where
  "highest_layer w = (if w 4 > 0 then 4 else if w 3 > 0 then 3 else if w 2 > 0 then 2 else 1)"

text \<open>
  The average of the centroid depths of the layers 1 to \<open>k\<close>, weighted by \<open>w\<close>, with
  \<open>d1\<close> when the weights add up to zero.
\<close>

definition weighted_depth :: "real \<Rightarrow> real \<Rightarrow> real \<Rightarrow> (int \<Rightarrow> real) \<Rightarrow> (int \<Rightarrow> real) \<Rightarrow> real" where
  "weighted_depth h r de w dbs =
     (let ks = [1..highest_layer w];
          s = sum_list (map w ks)
      in if s = 0 then centroid_depth h r de dbs 1
         else sum_list (map (\<lambda>k. centroid_depth h r de dbs k * w k) ks) / s)"

text \<open>Bar count, diameter sum and required width of a layer of a section (section 4.4).\<close>

definition layer_bar_count :: "row list \<Rightarrow> int \<Rightarrow> int" where
  "layer_bar_count rws k = sum_list (map (\<lambda>rw. qty_int (qty rw)) (entries_of_layer rws k))"

definition layer_diameter_sum :: "catalog \<Rightarrow> row list \<Rightarrow> int \<Rightarrow> real" where
  "layer_diameter_sum cat rws k =
     sum_list (map (\<lambda>rw. real_of_int (qty_int (qty rw)) * diameter cat (dia rw))
                 (entries_of_layer rws k))"

definition base_required_layer :: "catalog \<Rightarrow> real \<Rightarrow> real \<Rightarrow> row list \<Rightarrow> int \<Rightarrow> real" where
  "base_required_layer cat r de rws k =
     2 * r + 2 * de + real_of_int (max (layer_bar_count rws k - 1) 0) * 2.5
       + layer_diameter_sum cat rws k"

text \<open>
  The required width of a section: the maximum over the given layers (a non-empty list);
  and the maximum over the sections (a non-empty list).
\<close>

definition base_required_section :: "catalog \<Rightarrow> real \<Rightarrow> real \<Rightarrow> int list \<Rightarrow> row list \<Rightarrow> real" where
  "base_required_section cat r de ks rws = Max (set (map (base_required_layer cat r de rws) ks))"

definition base_required :: "catalog \<Rightarrow> real \<Rightarrow> real \<Rightarrow> int list \<Rightarrow> row list list \<Rightarrow> real" where
  "base_required cat r de ks sections = Max (set (map (base_required_section cat r de ks) sections))"

section \<open>Well-formed sections\<close>

text \<open>
  The rows of a section of a window that the row buttons can reach: their widgets are
  distinct objects, and there are between one and four of them.
\<close>

definition rows_ok :: "row list \<Rightarrow> bool" where
  "rows_ok rows \<longleftrightarrow> distinct (map widget rows) \<and> 1 \<le> length rows \<and> length rows \<le> 4"

section \<open>A concrete catalogue\<close>

text \<open>
  Modelled from the spec: the two dictionaries of \<^verbatim>\<open>models/constants.py\<close> are not among
  the sources. The diameters are those of section 8 of the specification (3/8" = 0.95,
  1/2" = 1.27, 5/8" = 1.59, 3/4" = 1.91, in cm); the areas are the nominal areas of these
  bars in square centimetres. This catalogue is the concrete input of the examples below; the theorems
  hold for every catalogue.
\<close>

definition sample_catalog :: catalog where
  \<open>sample_catalog =
     \<lparr>BAR_DATA = [''1/2"'' \<mapsto> 1.29, ''5/8"'' \<mapsto> 1.99, ''3/4"'' \<mapsto> 2.84, ''1"'' \<mapsto> 5.10],
      DIAM_CM = [''8mm'' \<mapsto> 0.80, ''3/8"'' \<mapsto> 0.95, ''1/2"'' \<mapsto> 1.27, ''5/8"'' \<mapsto> 1.59,
                 ''3/4"'' \<mapsto> 1.91, ''1"'' \<mapsto> 2.54]\<rparr>\<close>

section \<open>Example windows\<close>

text \<open>
  The inputs of the examples: the window as built for the moments 10, 5, 8 and 6, 7, 4
  (tonne-metre), with the rows of its first section (M1-) as the user has added and
  edited them.
\<close>

definition edited_window :: "row list \<Rightarrow> design_window" where
  "edited_window rows0 =
     (build_ui [10, 5, 8] [6, 7, 4])
       \<lparr>rebar_rows := rows0 # tl (rebar_rows (build_ui [10, 5, 8] [6, 7, 4]))\<rparr>"

text \<open>
  A section view opened on the window whose first section holds two 1/2" bars and one
  5/8" bar in layer 1, before any order is stored.
\<close>

definition example_view :: view3d_window where
  \<open>example_view =
     \<lparr>design = edited_window
                 [new_row 1, \<lparr>qty = IntText 1, dia = ''5/8"'', capa = IntText 1, widget = 7\<rparr>],
      neg_orders = [], pos_orders = []\<rparr>\<close>

section \<open>Properties of the required steel area\<close>

lemma as_root_le_square:
  assumes "0 < fc" "0 < b" "0 < fy" "0 < phi"
  shows "as_root Mu fc b d fy phi \<le> (2 * as_term fc b d fy)\<^sup>2"
proof -
  have sq: "(2 * as_term fc b d fy)\<^sup>2 = (2.89 * (fc * b * d)\<^sup>2) / (fy\<^sup>2)"
    using assms by (simp add: as_term_def power2_eq_square field_simps)
  have "0 \<le> (6.8 * fc * b * (\<bar>Mu\<bar> * 100000)) / (phi * (fy\<^sup>2))"
    using assms by simp
  then show ?thesis
    unfolding sq by (simp add: as_root_def Let_def)
qed


lemma as_root_split:
  assumes "fy \<noteq> 0" "phi \<noteq> 0"
  shows "as_root Mu fc b d fy phi
    = (2 * as_term fc b d fy)\<^sup>2 - (6.8 * fc * b * 100000 / (phi * fy\<^sup>2)) * \<bar>Mu\<bar>"
  using assms by (simp add: as_root_def as_term_def Let_def power2_eq_square field_simps)

lemma calc_as_req_defined:
  assumes "fy \<noteq> 0" "phi \<noteq> 0"
  shows "calc_as_req Mu fc b d fy phi
    = Inr (as_term fc b d fy - 0.5 * sqrt (max (as_root Mu fc b d fy phi) 0))"
  using assms by (simp add: calc_as_req_def Let_def)

lemma sqrt_clamped_le:
  fixes R T :: real
  assumes "R \<le> T\<^sup>2" "0 \<le> T"
  shows "sqrt (max R 0) \<le> T"
proof -
  have "max R 0 \<le> T\<^sup>2" using assms by simp
  then have "sqrt (max R 0) \<le> sqrt (T\<^sup>2)" by (rule real_sqrt_le_mono)
  then show ?thesis using assms(2) by simp
qed

lemma sqrt_clamped_eq_iff:
  fixes R T :: real
  assumes "0 < T"
  shows "sqrt (max R 0) = T \<longleftrightarrow> R = T\<^sup>2"
proof
  assume h: "sqrt (max R 0) = T"
  have "(sqrt (max R 0))\<^sup>2 = max R 0" by simp
  then have "max R 0 = T\<^sup>2" using h by simp
  moreover have "0 < T\<^sup>2" using assms by simp
  ultimately show "R = T\<^sup>2" by (simp add: max_def split: if_splits)
next
  assume "R = T\<^sup>2"
  then show "sqrt (max R 0) = T" using assms by (simp add: max_def)
qed






text \<open>
  Over the real numbers, for positive \<open>fc\<close>, \<open>b\<close>, \<open>d\<close>, \<open>fy\<close>, \<open>phi\<close>: the radicand is at
  most \<open>(1.7 fc b d / fy)\<^sup>2\<close>, with equality exactly at the moment 0.
\<close>

lemma exact_area_bounds:
  assumes "0 < fc" "0 < b" "0 < d" "0 < fy" "0 < phi"
  shows "\<exists>a. calc_as_req Mu fc b d fy phi = Inr a
             \<and> 0 \<le> a \<and> a \<le> 1.7 * fc * b * d / (2 * fy)
             \<and> sqrt (max (as_root Mu fc b d fy phi) 0) \<le> 1.7 * fc * b * d / fy
             \<and> (a = 0 \<longleftrightarrow> Mu = 0)"
proof -
  define T where "T = 2 * as_term fc b d fy"
  define R where "R = as_root Mu fc b d fy phi"
  define K where "K = 6.8 * fc * b * 100000 / (phi * fy\<^sup>2)"
  define a where "a = as_term fc b d fy - 0.5 * sqrt (max R 0)"
  have a_eq: "a = T / 2 - sqrt (max R 0) / 2" by (simp add: a_def T_def)
  have T: "T = 1.7 * fc * b * d / fy" by (simp add: T_def as_term_def)
  have Tpos: "0 < T" using assms by (simp add: T)
  have Kpos: "0 < K" using assms by (simp add: K_def)
  have run: "calc_as_req Mu fc b d fy phi = Inr a"
    using assms by (simp add: calc_as_req_defined a_def R_def)
  have "R \<le> T\<^sup>2"
    unfolding R_def T_def using assms by (intro as_root_le_square) simp_all
  then have le: "sqrt (max R 0) \<le> T" using Tpos by (intro sqrt_clamped_le) simp_all
  have ge: "0 \<le> sqrt (max R 0)" by simp
  have root: "R = T\<^sup>2 - K * \<bar>Mu\<bar>"
    unfolding R_def T_def K_def using assms by (intro as_root_split) simp_all
  have "a = 0 \<longleftrightarrow> sqrt (max R 0) = T" unfolding a_eq by auto
  also have "\<dots> \<longleftrightarrow> R = T\<^sup>2" using Tpos by (rule sqrt_clamped_eq_iff)
  also have "\<dots> \<longleftrightarrow> K * \<bar>Mu\<bar> = 0" unfolding root by simp
  also have "\<dots> \<longleftrightarrow> Mu = 0" using Kpos by simp
  finally have zero: "a = 0 \<longleftrightarrow> Mu = 0" .
  have "0 \<le> a" using le unfolding a_eq by simp
  moreover have "a \<le> 1.7 * fc * b * d / (2 * fy)"
    using ge unfolding a_def by (simp add: as_term_def)
  moreover have "sqrt (max (as_root Mu fc b d fy phi) 0) \<le> 1.7 * fc * b * d / fy"
    using le unfolding T R_def .
  ultimately show ?thesis using run zero by blast
qed

section \<open>Rounding to binary64\<close>

lemma pow2_powr: "pow2 e = 2 powr (of_int e)"
proof (cases "0 \<le> e")
  case True
  then have "(2::real) powr (of_int e) = 2 powr (real (nat e))" by simp
  also have "\<dots> = 2 ^ nat e" by (simp add: powr_realpow)
  finally show ?thesis using True by (simp add: pow2_def)
next
  case False
  then have "(2::real) powr (of_int e) = 2 powr (- real (nat (- e)))" by simp
  also have "\<dots> = 1 / 2 ^ nat (- e)" by (simp add: powr_minus powr_realpow divide_inverse)
  finally show ?thesis using False by (simp add: pow2_def)
qed

lemma pow2_pos: "0 < pow2 e"
  by (simp add: pow2_powr)

lemma pow2_add: "pow2 (a + b) = pow2 a * pow2 b"
  by (simp add: pow2_powr powr_add)

lemma pow2_mono: "a \<le> b \<Longrightarrow> pow2 a \<le> pow2 b"
  by (simp add: pow2_powr)

lemma pow2_int: "0 \<le> e \<Longrightarrow> pow2 e = of_int (2 ^ nat e)"
  by (simp add: pow2_def)

lemma binade_bounds:
  assumes "x \<noteq> 0"
  shows "pow2 (binade x) \<le> \<bar>x\<bar>" and "\<bar>x\<bar> < pow2 (binade x + 1)"
proof -
  have pos: "0 < \<bar>x\<bar>" using assms by simp
  have "of_int (binade x) \<le> log 2 \<bar>x\<bar>" by (simp add: binade_def)
  then show "pow2 (binade x) \<le> \<bar>x\<bar>"
    using pos by (simp add: pow2_powr le_log_iff)
  have "log 2 \<bar>x\<bar> < of_int (binade x + 1)" by (simp add: binade_def)
  then show "\<bar>x\<bar> < pow2 (binade x + 1)"
    using pos by (simp add: pow2_powr log_less_iff)
qed

lemma binade_eqI:
  assumes "pow2 k \<le> \<bar>x\<bar>" "\<bar>x\<bar> < pow2 (k + 1)"
  shows "binade x = k"
proof -
  have pos: "0 < \<bar>x\<bar>" using assms(1) pow2_pos [of k] by linarith
  have "of_int k \<le> log 2 \<bar>x\<bar>" using assms(1) pos by (simp add: pow2_powr le_log_iff)
  moreover have "log 2 \<bar>x\<bar> < of_int k + 1" using assms(2) pos by (simp add: pow2_powr log_less_iff)
  ultimately show ?thesis unfolding binade_def by (rule floor_unique)
qed

lemma binade_mono:
  assumes "0 < x" "x \<le> y"
  shows "binade x \<le> binade y"
  unfolding binade_def using assms by (intro floor_mono) simp

lemma round_even_le:
  assumes "y \<le> of_int K"
  shows "round_even y \<le> K"
proof -
  have f: "\<lfloor>y\<rfloor> \<le> K" using assms by (simp add: floor_le_iff)
  show ?thesis
  proof (cases "\<lfloor>y\<rfloor> = K")
    case True
    then have "y = of_int K" using assms by linarith
    then show ?thesis by (simp add: round_even_def)
  next
    case False
    then have "\<lfloor>y\<rfloor> + 1 \<le> K" using f by simp
    then show ?thesis using f by (simp add: round_even_def Let_def)
  qed
qed

lemma round_even_ge:
  assumes "of_int K \<le> y"
  shows "K \<le> round_even y"
proof -
  have "K \<le> \<lfloor>y\<rfloor>" using assms by (simp add: le_floor_iff)
  then show ?thesis by (simp add: round_even_def Let_def)
qed

lemma round_even_near:
  assumes "\<bar>y - of_int n\<bar> < 1/2"
  shows "round_even y = n"
proof (cases "of_int n \<le> y")
  case True
  then have "\<lfloor>y\<rfloor> = n" using assms by (intro floor_unique) linarith+
  then show ?thesis using assms True by (simp add: round_even_def Let_def)
next
  case False
  then have f: "\<lfloor>y\<rfloor> = n - 1" using assms by (intro floor_unique) (simp, linarith)+
  have "1/2 < y - of_int (n - 1)" using assms False by simp
  then show ?thesis using f by (simp add: round_even_def Let_def)
qed

lemma rn_eval:
  assumes "pow2 k \<le> \<bar>x\<bar>" "\<bar>x\<bar> < pow2 (k + 1)"
    and "\<bar>x / pow2 (max (k - 52) (- 1074)) - of_int n\<bar> < 1/2"
    and "\<bar>of_int n * pow2 (max (k - 52) (- 1074))\<bar> < 2 ^ 1024"
  shows "rn x = Num (of_int n * pow2 (max (k - 52) (- 1074)))"
proof -
  have nz: "x \<noteq> 0" using assms(1) pow2_pos [of k] by auto
  have b: "binade x = k" using assms(1,2) by (rule binade_eqI)
  have r: "round_even (x / pow2 (max (k - 52) (- 1074))) = n" using assms(3) by (rule round_even_near)
  show ?thesis using nz assms(4) by (simp add: rn_def b r Let_def)
qed


lemma rn_sqrt_eval:
  assumes "(pow2 k)\<^sup>2 \<le> x" "x < (pow2 (k + 1))\<^sup>2" and "0 \<le> n"
    and "((of_int n - 1/2) * pow2 (max (k - 52) (- 1074)))\<^sup>2 < x"
    and "x < ((of_int n + 1/2) * pow2 (max (k - 52) (- 1074)))\<^sup>2"
    and "\<bar>of_int n * pow2 (max (k - 52) (- 1074))\<bar> < 2 ^ 1024"
  shows "np_sqrt (Num x) = Num (of_int n * pow2 (max (k - 52) (- 1074)))"
proof -
  define e where "e = max (k - 52) (- 1074)"
  have pe: "0 < pow2 e" by (rule pow2_pos)
  have x0: "0 \<le> x" using assms(1) by (meson order_trans zero_le_power2)
  have lo: "pow2 k \<le> sqrt x" using assms(1) by (rule real_le_rsqrt)
  have "sqrt x < pow2 (k + 1)"
    using assms(2) pow2_pos [of "k + 1"] by (intro real_less_lsqrt) simp_all
  then have hi: "\<bar>sqrt x\<bar> < pow2 (k + 1)" using x0 by simp
  have lo': "pow2 k \<le> \<bar>sqrt x\<bar>" using lo x0 by simp
  have a: "(of_int n - 1/2) * pow2 e < sqrt x"
    using assms(4) unfolding e_def by (rule real_less_rsqrt)
  have "0 \<le> (of_int n + 1/2) * pow2 e" using assms(3) pe by simp
  then have b: "sqrt x < (of_int n + 1/2) * pow2 e"
    using assms(5) unfolding e_def by (intro real_less_lsqrt) simp_all
  have "(of_int n - 1/2) < sqrt x / pow2 e" using a pe by (simp add: pos_less_divide_eq)
  moreover have "sqrt x / pow2 e < (of_int n + 1/2)" using b pe by (simp add: pos_divide_less_eq)
  ultimately have near: "\<bar>sqrt x / pow2 (max (k - 52) (- 1074)) - of_int n\<bar> < 1/2"
    unfolding e_def by linarith
  have "rn (sqrt x) = Num (of_int n * pow2 (max (k - 52) (- 1074)))"
    using lo' hi near assms(6) by (rule rn_eval)
  then show ?thesis using x0 by simp
qed

lemma pow2_53: "pow2 (53 + e) = 2 ^ 53 * pow2 e"
proof -
  have "pow2 53 = 2 ^ 53" by (simp add: pow2_def)
  then show ?thesis by (simp only: pow2_add)
qed

lemma pow2_53': "pow2 (e + 53) = 2 ^ 53 * pow2 e"
proof -
  have h: "pow2 53 = 2 ^ 53" by (simp add: pow2_def)
  show ?thesis unfolding pow2_add h by (rule mult.commute)
qed

lemma pow2_diff_int:
  assumes "a \<le> b"
  shows "pow2 b = of_int (2 ^ nat (b - a)) * pow2 a"
proof -
  have "pow2 b = pow2 ((b - a) + a)" by simp
  also have "\<dots> = pow2 (b - a) * pow2 a" by (rule pow2_add)
  also have "pow2 (b - a) = of_int (2 ^ nat (b - a))" using assms by (intro pow2_int) simp
  finally show ?thesis .
qed

lemma rn_value:
  assumes "x \<noteq> 0" "rn x = Num a"
  shows "a = of_int (round_even (x / pow2 (max (binade x - 52) (- 1074)))) * pow2 (max (binade x - 52) (- 1074))"
    and "\<bar>a\<bar> < 2 ^ 1024"
  using assms by (auto simp: rn_def Let_def split: if_splits)

lemma scaled_lt:
  assumes "x \<noteq> 0"
  shows "\<bar>x\<bar> / pow2 (max (binade x - 52) (- 1074)) < 2 ^ 53"
proof -
  define e where "e = max (binade x - 52) (- 1074)"
  have pe: "0 < pow2 e" by (rule pow2_pos)
  have "binade x + 1 \<le> 53 + e" unfolding e_def by simp
  then have "pow2 (binade x + 1) \<le> pow2 (53 + e)" by (rule pow2_mono)
  also have "\<dots> = 2 ^ 53 * pow2 e" by (rule pow2_53)
  finally have "\<bar>x\<bar> < 2 ^ 53 * pow2 e" using binade_bounds(2) [OF assms] by linarith
  then show ?thesis unfolding e_def [symmetric] using pe by (simp add: pos_divide_less_eq)
qed

lemma rn_form:
  assumes "rn u = Num t"
  shows "\<exists>N e. t = of_int N * pow2 e \<and> \<bar>N\<bar> \<le> 2 ^ 53 \<and> - 1074 \<le> e"
proof (cases "u = 0")
  case True
  then have "t = 0" using assms by (simp add: rn_def)
  then have "t = of_int 0 * pow2 0 \<and> \<bar>0::int\<bar> \<le> 2 ^ 53 \<and> - 1074 \<le> (0::int)" by simp
  then show ?thesis by blast
next
  case False
  define e where "e = max (binade u - 52) (- 1074)"
  define X where "X = u / pow2 e"
  define N where "N = round_even X"
  have pe: "0 < pow2 e" by (rule pow2_pos)
  have t: "t = of_int N * pow2 e" unfolding N_def X_def e_def using False assms by (rule rn_value)
  have lt: "\<bar>u\<bar> / pow2 e < 2 ^ 53" unfolding e_def using False by (rule scaled_lt)
  have eq: "\<bar>X\<bar> = \<bar>u\<bar> / pow2 e"
    unfolding X_def by (simp only: abs_divide abs_of_pos [OF pe])
  have b: "\<bar>X\<bar> < 2 ^ 53" using lt by (simp only: eq)
  have "X \<le> of_int (2 ^ 53)" using b by simp
  then have "N \<le> 2 ^ 53" unfolding N_def by (rule round_even_le)
  moreover have "of_int (- (2 ^ 53)) \<le> X" using b by simp
  then have "- (2 ^ 53) \<le> N" unfolding N_def by (rule round_even_ge)
  ultimately have "\<bar>N\<bar> \<le> 2 ^ 53" by simp
  moreover have "- 1074 \<le> e" unfolding e_def by simp
  ultimately show ?thesis using t by blast
qed

lemma rn_nonneg:
  assumes "0 \<le> x"
  shows "not_negative (rn x)"
proof (cases "x = 0")
  case True
  then show ?thesis by (simp add: rn_def)
next
  case False
  define e where "e = max (binade x - 52) (- 1074)"
  have pe: "0 < pow2 e" by (rule pow2_pos)
  have "of_int 0 \<le> x / pow2 e" using assms pe by simp
  then have "0 \<le> round_even (x / pow2 e)" by (rule round_even_ge)
  then have "0 \<le> of_int (round_even (x / pow2 e)) * pow2 e" using pe by simp
  then show ?thesis using False assms by (simp add: rn_def Let_def e_def)
qed

lemma rn_nonpos:
  assumes "x \<le> 0" "rn x = Num a"
  shows "a \<le> 0"
proof (cases "x = 0")
  case True
  then show ?thesis using assms by (simp add: rn_def)
next
  case False
  define e where "e = max (binade x - 52) (- 1074)"
  have pe: "0 < pow2 e" by (rule pow2_pos)
  have a: "a = of_int (round_even (x / pow2 e)) * pow2 e"
    unfolding e_def using False assms(2) by (rule rn_value)
  have "x / pow2 e \<le> of_int 0" using assms(1) pe by (simp add: divide_le_0_iff)
  then have "round_even (x / pow2 e) \<le> 0" by (rule round_even_le)
  then show ?thesis unfolding a using pe by (simp add: mult_le_0_iff)
qed

lemma rn_le_representable:
  assumes t: "t = of_int N * pow2 et" and N: "N \<le> 2 ^ 53" and et: "- 1074 \<le> et"
    and x: "0 < x" "x \<le> t" and a: "rn x = Num a"
  shows "a \<le> t"
proof -
  define e where "e = max (binade x - 52) (- 1074)"
  have pe: "0 < pow2 e" by (rule pow2_pos)
  have nz: "x \<noteq> 0" using x by simp
  have av: "a = of_int (round_even (x / pow2 e)) * pow2 e"
    unfolding e_def using nz a by (rule rn_value)
  show ?thesis
  proof (cases "e \<le> et")
    case True
    have "t = of_int (N * 2 ^ nat (et - e)) * pow2 e"
      unfolding t using pow2_diff_int [OF True] by simp
    then have "x / pow2 e \<le> of_int (N * 2 ^ nat (et - e))"
      using x(2) pe by (simp add: pos_divide_le_eq)
    then have "round_even (x / pow2 e) \<le> N * 2 ^ nat (et - e)" by (rule round_even_le)
    then have "of_int (round_even (x / pow2 e)) * pow2 e \<le> of_int (N * 2 ^ nat (et - e)) * pow2 e"
      using pe by (intro mult_right_mono) (simp_all only: of_int_le_iff less_imp_le)
    then show ?thesis
      unfolding av using \<open>t = of_int (N * 2 ^ nat (et - e)) * pow2 e\<close> by simp
  next
    case False
    then have e: "e = binade x - 52" and big: "et + 53 \<le> binade x"
      using et unfolding e_def by simp_all
    have "pow2 (binade x) \<le> x" using binade_bounds(1) [OF nz] x(1) by simp
    have "of_int N * pow2 et \<le> 2 ^ 53 * pow2 et"
      using N pow2_pos [of et] by (intro mult_right_mono) simp_all
    also have "\<dots> = pow2 (et + 53)" by (rule pow2_53' [symmetric])
    also have "\<dots> \<le> pow2 (binade x)" using big by (rule pow2_mono)
    finally have "t \<le> pow2 (binade x)" unfolding t .
    then have xle: "x \<le> pow2 (binade x)" using x(2) by simp
    have "pow2 (binade x) = of_int (2 ^ nat (binade x - e)) * pow2 e"
      by (rule pow2_diff_int) (simp add: e)
    then have pb: "pow2 (binade x) = of_int (2 ^ 52) * pow2 e" by (simp add: e)
    then have "x / pow2 e \<le> of_int (2 ^ 52)" using xle pe by (simp add: pos_divide_le_eq)
    then have "round_even (x / pow2 e) \<le> 2 ^ 52" by (rule round_even_le)
    then have "of_int (round_even (x / pow2 e)) * pow2 e \<le> of_int (2 ^ 52) * pow2 e"
      using pe by (intro mult_right_mono) (simp_all only: of_int_le_iff less_imp_le)
    then have "a \<le> pow2 (binade x)" unfolding av pb .
    then show ?thesis using \<open>pow2 (binade x) \<le> x\<close> x(2) by simp
  qed
qed

lemma rn_sub_le:
  assumes "rn u = Num t" "0 \<le> t" "0 \<le> y" "rn (t - y) = Num a"
  shows "a \<le> t"
proof -
  obtain N e where f: "t = of_int N * pow2 e" "\<bar>N\<bar> \<le> 2 ^ 53" "- 1074 \<le> e"
    using rn_form [OF assms(1)] by blast
  define x where "x = t - y"
  have xt: "x \<le> t" unfolding x_def using assms(3) by simp
  have ax: "rn x = Num a" unfolding x_def by (rule assms(4))
  show ?thesis
  proof (cases "0 < x")
    case True
    have N: "N \<le> 2 ^ 53" using f(2) by linarith
    show ?thesis using f(1) N f(3) True xt ax by (rule rn_le_representable)
  next
    case False
    then have "x \<le> 0" by simp
    then have "a \<le> 0" using ax by (rule rn_nonpos)
    then show ?thesis using assms(2) by linarith
  qed
qed


lemma f_mul_not_negative:
  assumes "not_negative u" "not_negative v"
  shows "not_negative (f_mul u v)"
  using assms by (cases u; cases v) (simp_all add: rn_nonneg inf_of_def sgn_if)

lemma f_div_not_negative:
  assumes "f_div u v = Inr w" "not_negative u" "not_negative v"
  shows "not_negative w"
  using assms
  by (cases u; cases v) (auto simp: rn_nonneg inf_of_def sgn_if split: if_splits)

lemma f_div_rounded:
  assumes "f_div u v = Inr (Num t)"
  shows "\<exists>w. rn w = Num t"
proof (cases v)
  case (Num y)
  then show ?thesis
    using assms by (cases u) (auto simp: inf_of_def split: if_splits)
next
  case PosInf
  then have "t = 0" using assms by (cases u) simp_all
  then have "rn 0 = Num t" by (simp add: rn_def)
  then show ?thesis ..
next
  case NegInf
  then have "t = 0" using assms by (cases u) simp_all
  then have "rn 0 = Num t" by (simp add: rn_def)
  then show ?thesis ..
next
  case NaN
  then show ?thesis using assms by (cases u) simp_all
qed

lemma np_sqrt_not_negative: "not_negative (np_sqrt r)"
  by (cases r) (simp_all add: rn_nonneg)

lemma f_sub_Num:
  assumes "f_sub u v = Num a"
  shows "\<exists>t y. u = Num t \<and> v = Num y \<and> rn (t - y) = Num a"
  using assms by (cases u; cases v) simp_all

lemma as_term_f64_not_negative:
  assumes "0 < fc" "0 < b" "0 < d" "0 < fy"
    and "as_term_f64 (Num fc) (Num b) (Num d) (Num fy) = Inr w"
  shows "not_negative w"
proof -
  have "not_negative (rn 1.7)" by (rule rn_nonneg) simp
  moreover have "not_negative (Num fc)" "not_negative (Num b)" "not_negative (Num d)"
    using assms by simp_all
  ultimately have n: "not_negative (f_mul (f_mul (f_mul (rn 1.7) (Num fc)) (Num b)) (Num d))"
    by (intro f_mul_not_negative)
  have "not_negative (Num 2)" "not_negative (Num fy)" using assms by simp_all
  then have d: "not_negative (f_mul (Num 2) (Num fy))" by (rule f_mul_not_negative)
  show ?thesis using assms(5) n d unfolding as_term_f64_def by (rule f_div_not_negative)
qed

lemma calc_as_req_f64_le_term:
  assumes "0 < fc" "0 < b" "0 < d" "0 < fy"
    and run: "calc_as_req_f64 Mu (Num fc) (Num b) (Num d) (Num fy) phi = Inr (Num a)"
  shows "\<exists>t. as_term_f64 (Num fc) (Num b) (Num d) (Num fy) = Inr (Num t) \<and> 0 \<le> t \<and> a \<le> t"
proof -
  obtain tm rd where tm: "as_term_f64 (Num fc) (Num b) (Num d) (Num fy) = Inr tm"
    and res: "f_sub tm (f_mul (Num 0.5) (np_sqrt (py_max0 rd))) = Num a"
    using run unfolding calc_as_req_f64_def by (auto split: sum.splits)
  obtain t y where t: "tm = Num t" and y: "f_mul (Num 0.5) (np_sqrt (py_max0 rd)) = Num y"
    and a: "rn (t - y) = Num a"
    using f_sub_Num [OF res] by blast
  have "not_negative (Num 0.5)" by simp
  then have "not_negative (f_mul (Num 0.5) (np_sqrt (py_max0 rd)))"
    using np_sqrt_not_negative by (rule f_mul_not_negative)
  then have y0: "0 \<le> y" unfolding y by simp
  have "not_negative tm" using assms(1-4) tm by (rule as_term_f64_not_negative)
  then have t0: "0 \<le> t" unfolding t by simp
  obtain w where w: "rn w = Num t"
    using tm f_div_rounded unfolding t as_term_f64_def by blast
  have "a \<le> t" using w t0 y0 a by (rule rn_sub_le)
  then show ?thesis using tm t0 unfolding t by blast
qed

section \<open>Two runs of the required steel area in binary64\<close>

text \<open>
  The runs of \<open>calc_as_req_f64\<close> at \<open>fc = 210\<close>, \<open>b = 30\<close>, \<open>d = 27\<close>, \<open>fy = 4200\<close> and
  \<open>phi\<close> the binary64 number of \<^verbatim>\<open>0.9\<close>, at the moments 0 and 10, one rounding at a time.
\<close>

lemma run_lit_0_9:
  "rn 0.9 = Num (8106479329266893 / 9007199254740992)"
  using rn_eval [of "- 1" "0.9" 8106479329266893]
  by (simp add: pow2_def)

lemma run_lit_1_7:
  "rn 1.7 = Num (7656119366529843 / 4503599627370496)"
  using rn_eval [of 0 "1.7" 7656119366529843]
  by (simp add: pow2_def)

lemma run_term_1:
  "f_mul (Num (7656119366529843 / 4503599627370496)) (Num 210) = Num 357"
  using rn_eval [of 8 "(7656119366529843 / 4503599627370496) * 210" 6280410417856512]
  by (simp add: pow2_def)

lemma run_term_2:
  "f_mul (Num 357) (Num 30) = Num 10710"
  using rn_eval [of 13 "357 * 30" 5887884766740480]
  by (simp add: pow2_def)

lemma run_term_3:
  "f_mul (Num 10710) (Num 27) = Num 289170"
  using rn_eval [of 18 "10710 * 27" 4967902771937280]
  by (simp add: pow2_def)

lemma run_term_den:
  "f_mul (Num 2) (Num 4200) = Num 8400"
  using rn_eval [of 13 "2 * 4200" 4617948836659200]
  by (simp add: pow2_def)

lemma run_term:
  "f_div (Num 289170) (Num 8400) = Inr (Num (2422444018316083 / 70368744177664))"
  using rn_eval [of 5 "289170 / 8400" 4844888036632166]
  by (simp add: pow2_def)

lemma run0_mu_kgcm:
  "f_mul (Num 0) (Num 100000) = Num 0"
  by (simp add: rn_def)

lemma run_fcb:
  "f_mul (Num 210) (Num 30) = Num 6300"
  using rn_eval [of 12 "210 * 30" 6926923254988800]
  by (simp add: pow2_def)

lemma run_fcbd:
  "f_mul (Num 6300) (Num 27) = Num 170100"
  using rn_eval [of 17 "6300 * 27" 5844591496396800]
  by (simp add: pow2_def)

lemma run_fcbd_sq:
  "f_sq (Num 170100) = Inr (Num 28934010000)"
  using rn_eval [of 34 "170100 * 170100" 7584877117440000]
  by (simp add: pow2_def)

lemma run_fy_sq:
  "f_sq (Num 4200) = Inr (Num 17640000)"
  using rn_eval [of 24 "4200 * 4200" 4735201443840000]
  by (simp add: pow2_def)

lemma run_lit_2_89:
  "rn 2.89 = Num (6507701461550367 / 2251799813685248)"
  using rn_eval [of 1 "2.89" 6507701461550367]
  by (simp add: pow2_def)

lemma run_root_num1:
  "f_mul (Num (6507701461550367 / 2251799813685248)) (Num 28934010000) = Num 83619288900"
  using rn_eval [of 36 "(6507701461550367 / 2251799813685248) * 28934010000" 5480073717350400]
  by (simp add: pow2_def)

lemma run_root_q1:
  "f_div (Num 83619288900) (Num 17640000) = Inr (Num (2606019854079099 / 549755813888))"
  using rn_eval [of 12 "83619288900 / 17640000" 5212039708158198]
  by (simp add: pow2_def)

lemma run_lit_6_8:
  "rn 6.8 = Num (7656119366529843 / 1125899906842624)"
  using rn_eval [of 2 "6.8" 7656119366529843]
  by (simp add: pow2_def)

lemma run_root_6_8_fc:
  "f_mul (Num (7656119366529843 / 1125899906842624)) (Num 210) = Num 1428"
  using rn_eval [of 10 "(7656119366529843 / 1125899906842624) * 210" 6280410417856512]
  by (simp add: pow2_def)

lemma run_root_6_8_fc_b:
  "f_mul (Num 1428) (Num 30) = Num 42840"
  using rn_eval [of 15 "1428 * 30" 5887884766740480]
  by (simp add: pow2_def)

lemma run0_root_num2:
  "f_mul (Num 42840) (Num 0) = Num 0"
  by (simp add: rn_def)

lemma run_root_den2:
  "f_mul (Num (8106479329266893 / 9007199254740992)) (Num 17640000) = Num 15876000"
  using rn_eval [of 23 "(8106479329266893 / 9007199254740992) * 17640000" 8523362598912000]
  by (simp add: pow2_def)

lemma run0_root_q2:
  "f_div (Num 0) (Num 15876000) = Inr (Num 0)"
  by (simp add: rn_def)

lemma run0_root:
  "f_sub (Num (2606019854079099 / 549755813888)) (Num 0) = Num (2606019854079099 / 549755813888)"
  using rn_eval [of 12 "(2606019854079099 / 549755813888) - 0" 5212039708158198]
  by (simp add: pow2_def)

lemma run0_root_clamped:
  "py_max0 (Num (2606019854079099 / 549755813888)) = Num (2606019854079099 / 549755813888)"
  by simp

lemma run0_sqrt:
  "np_sqrt (Num (2606019854079099 / 549755813888)) = Num (4844888036632167 / 70368744177664)"
  using rn_sqrt_eval [of 6 "(2606019854079099 / 549755813888)" 4844888036632167]
  by (simp add: pow2_def power2_eq_square)

lemma run0_half_sqrt:
  "f_mul (Num 0.5) (Num (4844888036632167 / 70368744177664))
     = Num (4844888036632167 / 140737488355328)"
  using rn_eval [of 5 "0.5 * (4844888036632167 / 70368744177664)" 4844888036632167]
  by (simp add: pow2_def)

lemma run0_result:
  "f_sub (Num (2422444018316083 / 70368744177664)) (Num (4844888036632167 / 140737488355328))
     = Num (- (1 / 140737488355328))"
  using rn_eval
      [of "- 47" "(2422444018316083 / 70368744177664) - (4844888036632167 / 140737488355328)"
          "- 4503599627370496"]
  by (simp add: pow2_def)

lemma run10_mu_kgcm:
  "f_mul (Num 10) (Num 100000) = Num 1000000"
  using rn_eval [of 19 "10 * 100000" 8589934592000000]
  by (simp add: pow2_def)

lemma run10_root_num2:
  "f_mul (Num 42840) (Num 1000000) = Num 42840000000"
  using rn_eval [of 35 "42840 * 1000000" 5615124480000000]
  by (simp add: pow2_def)

lemma run10_root_q2:
  "f_div (Num 42840000000) (Num 15876000) = Inr (Num (5933872276886349 / 2199023255552))"
  using rn_eval [of 11 "42840000000 / 15876000" 5933872276886349]
  by (simp add: pow2_def)

lemma run10_root:
  "f_sub (Num (2606019854079099 / 549755813888)) (Num (5933872276886349 / 2199023255552))
     = Num (4490207139430047 / 2199023255552)"
  using rn_eval
      [of 10 "(2606019854079099 / 549755813888) - (5933872276886349 / 2199023255552)"
          8980414278860094]
  by (simp add: pow2_def)

lemma run10_root_clamped:
  "py_max0 (Num (4490207139430047 / 2199023255552)) = Num (4490207139430047 / 2199023255552)"
  by simp

lemma run10_sqrt:
  "np_sqrt (Num (4490207139430047 / 2199023255552)) = Num (397473418922117 / 8796093022208)"
  using rn_sqrt_eval [of 5 "(4490207139430047 / 2199023255552)" 6359574702753872]
  by (simp add: pow2_def power2_eq_square)

lemma run10_half_sqrt:
  "f_mul (Num 0.5) (Num (397473418922117 / 8796093022208))
     = Num (397473418922117 / 17592186044416)"
  using rn_eval [of 4 "0.5 * (397473418922117 / 8796093022208)" 6359574702753872]
  by (simp add: pow2_def)

lemma run10_result:
  "f_sub (Num (2422444018316083 / 70368744177664)) (Num (397473418922117 / 17592186044416))
     = Num (832550342627615 / 70368744177664)"
  using rn_eval
      [of 3 "(2422444018316083 / 70368744177664) - (397473418922117 / 17592186044416)"
          6660402741020920]
  by (simp add: pow2_def)

lemma run_term_value:
  "as_term_f64 (Num 210) (Num 30) (Num 27) (Num 4200)
     = Inr (Num (2422444018316083 / 70368744177664))"
  unfolding as_term_f64_def
  by (simp only: run_lit_1_7 run_term_1 run_term_2 run_term_3 run_term_den run_term)

lemma run0_value:
  "calc_as_req_f64 (Num 0) (Num 210) (Num 30) (Num 27) (Num 4200) (Num (8106479329266893 / 9007199254740992))
     = Inr (Num (- (1 / 140737488355328)))"
  unfolding calc_as_req_f64_def as_term_f64_def as_root_f64_def Let_def
  by (simp only: run_lit_1_7 run_term_1 run_term_2 run_term_3 run_term_den run_term run0_mu_kgcm
      run_fcb run_fcbd run_fcbd_sq run_fy_sq run_lit_2_89 run_root_num1 run_root_q1 run_lit_6_8
      run_root_6_8_fc run_root_6_8_fc_b run0_root_num2 run_root_den2 run0_root_q2 run0_root
      run0_root_clamped run0_sqrt run0_half_sqrt run0_result f_abs.simps abs_zero abs_numeral
      sum.case)

lemma run10_value:
  "calc_as_req_f64 (Num 10) (Num 210) (Num 30) (Num 27) (Num 4200) (Num (8106479329266893 / 9007199254740992))
     = Inr (Num (832550342627615 / 70368744177664))"
  unfolding calc_as_req_f64_def as_term_f64_def as_root_f64_def Let_def
  by (simp only: run_lit_1_7 run_term_1 run_term_2 run_term_3 run_term_den run_term
      run10_mu_kgcm run_fcb run_fcbd run_fcbd_sq run_fy_sq run_lit_2_89 run_root_num1
      run_root_q1 run_lit_6_8 run_root_6_8_fc run_root_6_8_fc_b run10_root_num2 run_root_den2
      run10_root_q2 run10_root run10_root_clamped run10_sqrt run10_half_sqrt run10_result
      f_abs.simps abs_zero abs_numeral sum.case)

section \<open>Bounds of the required steel area\<close>

text \<open>
  Claim C10, as the code has it. For every moment and positive \<open>fc\<close>, \<open>b\<close>, \<open>d\<close>, \<open>fy\<close>,
  \<open>phi\<close>: evaluated over the real numbers, the raw area lies between 0 and
  \<open>term = 1.7 fc b d / (2 fy)\<close>, the square root of the clamped radicand is at most
  \<open>1.7 fc b d / fy\<close>, and the raw area is 0 exactly when the moment is 0; evaluated in
  binary64, as the program does, every finite result of \<^verbatim>\<open>_calc_as_req\<close> is at most the
  binary64 \<^verbatim>\<open>term\<close>, which is then a finite number and not negative. The lower bound 0
  and the zero at the moment 0 do not carry over to binary64.
\<close>

theorem raw_area_bounds:
  assumes "0 < fc" "0 < b" "0 < d" "0 < fy" "0 < phi"
  shows "(\<exists>a. calc_as_req Mu fc b d fy phi = Inr a
              \<and> 0 \<le> a \<and> a \<le> 1.7 * fc * b * d / (2 * fy)
              \<and> sqrt (max (as_root Mu fc b d fy phi) 0) \<le> 1.7 * fc * b * d / fy
              \<and> (a = 0 \<longleftrightarrow> Mu = 0))
         \<and> (\<forall>a. calc_as_req_f64 (Num Mu) (Num fc) (Num b) (Num d) (Num fy) (Num phi) = Inr (Num a)
               \<longrightarrow> (\<exists>t. as_term_f64 (Num fc) (Num b) (Num d) (Num fy) = Inr (Num t)
                        \<and> 0 \<le> t \<and> a \<le> t))"
proof
  show "\<exists>a. calc_as_req Mu fc b d fy phi = Inr a
             \<and> 0 \<le> a \<and> a \<le> 1.7 * fc * b * d / (2 * fy)
             \<and> sqrt (max (as_root Mu fc b d fy phi) 0) \<le> 1.7 * fc * b * d / fy
             \<and> (a = 0 \<longleftrightarrow> Mu = 0)"
    using assms by (rule exact_area_bounds)
next
  show "\<forall>a. calc_as_req_f64 (Num Mu) (Num fc) (Num b) (Num d) (Num fy) (Num phi) = Inr (Num a)
          \<longrightarrow> (\<exists>t. as_term_f64 (Num fc) (Num b) (Num d) (Num fy) = Inr (Num t)
                   \<and> 0 \<le> t \<and> a \<le> t)"
    using assms(1-4) by (blast intro: calc_as_req_f64_le_term)
qed

theorem raw_area_bounds_witness:
  "(0::real) < 210 \<and> (0::real) < 30 \<and> (0::real) < 27 \<and> (0::real) < 4200
   \<and> (0::real) < 8106479329266893 / 9007199254740992
   \<and> (\<exists>a. calc_as_req 10 210 30 27 4200 (8106479329266893 / 9007199254740992) = Inr a
          \<and> 0 \<le> a \<and> a \<le> 1.7 * 210 * 30 * 27 / (2 * 4200) \<and> a \<noteq> 0)
   \<and> calc_as_req_f64 (Num 10) (Num 210) (Num 30) (Num 27) (Num 4200) (Num (8106479329266893 / 9007199254740992))
       = Inr (Num (832550342627615 / 70368744177664))
   \<and> as_term_f64 (Num 210) (Num 30) (Num 27) (Num 4200) = Inr (Num (2422444018316083 / 70368744177664))
   \<and> (0::real) \<le> (2422444018316083 / 70368744177664)
   \<and> ((832550342627615 / 70368744177664)::real) \<le> (2422444018316083 / 70368744177664)"
proof -
  have pos: "(0::real) < 210" "(0::real) < 30" "(0::real) < 27" "(0::real) < 4200"
    "(0::real) < 8106479329266893 / 9007199254740992"
    by simp_all
  note T = raw_area_bounds [where Mu = 10, OF pos]
  from T obtain a where a: "calc_as_req 10 210 30 27 4200 (8106479329266893 / 9007199254740992) = Inr a"
    "0 \<le> a" "a \<le> 1.7 * 210 * 30 * 27 / (2 * 4200)" "a = 0 \<longleftrightarrow> (10::real) = 0"
    by blast
  from a(4) have "a \<noteq> 0" by simp
  with a have exact: "\<exists>a. calc_as_req 10 210 30 27 4200 (8106479329266893 / 9007199254740992) = Inr a
      \<and> 0 \<le> a \<and> a \<le> 1.7 * 210 * 30 * 27 / (2 * 4200) \<and> a \<noteq> 0"
    by blast
  from T run10_value
  obtain t where t: "as_term_f64 (Num 210) (Num 30) (Num 27) (Num 4200) = Inr (Num t)"
    "0 \<le> t" "(832550342627615 / 70368744177664) \<le> t"
    by blast
  from t(1) have "t = (2422444018316083 / 70368744177664)" by (simp add: run_term_value)
  with t have f64: "(0::real) \<le> (2422444018316083 / 70368744177664)" "((832550342627615 / 70368744177664)::real) \<le> (2422444018316083 / 70368744177664)"
    by simp_all
  show ?thesis using pos exact run10_value run_term_value f64 by blast
qed

text \<open>
  At the moment 0, with \<open>fc = 210\<close>, \<open>b = 30\<close>, \<open>d = 27\<close>, \<open>fy = 4200\<close> and \<open>phi\<close> the
  float \<^verbatim>\<open>0.9\<close>, \<^verbatim>\<open>_calc_as_req\<close> returns \<^verbatim>\<open>-7.105427357601002e-15\<close>: the literal
  \<^verbatim>\<open>2.89\<close> is not the square of the literal \<^verbatim>\<open>1.7\<close>, the square root rounds up to
  \<^verbatim>\<open>68.85000000000001\<close>, and its half exceeds \<^verbatim>\<open>term = 34.425\<close> by one unit in the last
  place. The raw area is negative, and it is not 0 at the moment 0.
\<close>

theorem raw_area_negative_at_zero_moment:
  "calc_as_req_f64 (Num 0) (Num 210) (Num 30) (Num 27) (Num 4200) (rn 0.9)
     = Inr (Num (- (1 / 2 ^ 47)))"
  unfolding run_lit_0_9 run0_value by simp

section \<open>The window as built, and runs of the required-area pass\<close>

lemma build_ui_eq:
  \<open>build_ui mn mp =
     \<lparr>b_edit = Some 30, h_edit = Some 50, r_edit = Some 4, fc_edit = Some 210,
      fy_edit = Some 4200, phi_edit = Some 0.9,
      cb_estribo = ''3/8"'', cb_varilla = ''5/8"'',
      rebar_rows = [[new_row 1], [new_row 2], [new_row 3], [new_row 4], [new_row 5], [new_row 6]],
      mn_corr = mn, mp_corr = mp\<rparr>\<close>
  by (simp add: build_ui_def add_rebar_row_def fresh_widget_def new_row_def upt_rec
      replicate_Suc numeral_eq_Suc)

lemma sample_lookups:
  \<open>diameter sample_catalog ''3/8"'' = 0.95\<close>
  \<open>diameter sample_catalog ''1/2"'' = 1.27\<close>
  \<open>diameter sample_catalog ''5/8"'' = 1.59\<close>
  \<open>diameter sample_catalog ''1"'' = 2.54\<close>
  \<open>diameter sample_catalog [] = 0\<close>
  \<open>area sample_catalog ''1/2"'' = 1.29\<close>
  \<open>area sample_catalog ''1"'' = 5.10\<close>
  \<open>area sample_catalog [] = 0\<close>
  by (simp_all add: sample_catalog_def diameter_def area_def dict_get_def)


lemma raw_areas_defined:
  assumes "fy \<noteq> 0" "phi \<noteq> 0"
  shows "raw_areas ms fc b d fy phi
    = Inr (map (\<lambda>m. as_term fc b d fy - 0.5 * sqrt (max (as_root m fc b d fy phi) 0)) ms)"
  using assms by (induction ms) (simp_all add: calc_as_req_defined)

lemma calc_as_limits_defined:
  assumes "fy \<noteq> 0" "6000 + fy \<noteq> 0" "0 \<le> fc"
  shows "calc_as_limits fc fy b d
    = Inr (0.7 * (sqrt fc / fy) * b * d,
           0.75 * ((0.85 * fc * beta1 fc / fy) * (6000 / (6000 + fy))) * b * d)"
  using assms by (simp add: calc_as_limits_def Let_def)

lemma required_areas_run:
  assumes "b_edit st = Some b" "fc_edit st = Some fc" "fy_edit st = Some fy" "phi_edit st = Some phi"
    and "calc_effective_depth cat st = Inr d"
    and "fy \<noteq> 0" "6000 + fy \<noteq> 0" "0 \<le> fc" "phi \<noteq> 0"
    and "lo = 0.7 * (sqrt fc / fy) * b * d"
    and "hi = 0.75 * ((0.85 * fc * beta1 fc / fy) * (6000 / (6000 + fy))) * b * d"
    and "n_raw = map (\<lambda>m. as_term fc b d fy - 0.5 * sqrt (max (as_root m fc b d fy phi) 0)) (mn_corr st)"
    and "p_raw = map (\<lambda>m. as_term fc b d fy - 0.5 * sqrt (max (as_root m fc b d fy phi) 0)) (mp_corr st)"
  shows "required_areas cat st
    = Inr \<lparr>as_n = map (\<lambda>x. np_clip x lo hi) n_raw, as_p = map (\<lambda>x. np_clip x lo hi) p_raw,
           kept = Some \<lparr>as_min = lo, as_max = hi, as_n_raw = n_raw, as_p_raw = p_raw\<rparr>\<rparr>"
  using assms
  by (simp add: required_areas_def areas_for_def raw_areas_defined calc_as_limits_defined)





section \<open>Reinforcement limits and the clamp of the required areas\<close>




section \<open>Fields that hold no number\<close>




section \<open>The row scan of the effective depth\<close>

lemma fold_max_ge: "(a::real) \<le> fold max xs a"
proof (induction xs arbitrary: a)
  case Nil
  show ?case by simp
next
  case (Cons x xs)
  have "a \<le> max x a" by simp
  also have "\<dots> \<le> fold max xs (max x a)" by (rule Cons.IH)
  finally show ?case by simp
qed

lemma detect_max_layer_eq: "detect_max_layer w = highest_layer w"
  by (simp add: detect_max_layer_def highest_layer_def)

lemma highest_layer_cases:
  "highest_layer w = 1 \<or> highest_layer w = 2 \<or> highest_layer w = 3 \<or> highest_layer w = 4"
  by (simp add: highest_layer_def)

lemma upto_1_2: "[1..2::int] = [1, 2]"
  and upto_1_3: "[1..3::int] = [1, 2, 3]"
  and upto_1_4: "[1..4::int] = [1, 2, 3, 4]"
  and upto_1_1: "[1..1::int] = [1]"
  by (simp_all add: upto_rec1)

lemma layered_depth_weighted:
  "layered_depth h r de w dbs = weighted_depth h r de w dbs"
proof -
  consider "highest_layer w = 1" | "highest_layer w = 2" | "highest_layer w = 3"
    | "highest_layer w = 4"
    using highest_layer_cases [of w] by blast
  then show ?thesis
  proof cases
    case 1
    then show ?thesis
      by (simp add: layered_depth_def weighted_depth_def detect_max_layer_eq centroid_depth_def
          upto_1_1 Let_def)
  next
    case 2
    then show ?thesis
      by (simp add: layered_depth_def weighted_depth_def detect_max_layer_eq centroid_depth_def
          upto_1_2 Let_def)
  next
    case 3
    then show ?thesis
      by (simp add: layered_depth_def weighted_depth_def detect_max_layer_eq centroid_depth_def
          upto_1_3 Let_def add.assoc)
  next
    case 4
    then show ?thesis
      by (simp add: layered_depth_def weighted_depth_def detect_max_layer_eq centroid_depth_def
          upto_1_4 Let_def add.assoc)
  qed
qed


lemma fold_max_attained: "fold max xs (a::real) = a \<or> fold max xs a \<in> set xs"
proof (induction xs arbitrary: a)
  case Nil
  show ?case by simp
next
  case (Cons x xs)
  from Cons.IH [of "max x a"] show ?case
    by (auto simp: max_def split: if_splits)
qed

lemma find_max_entry:
  fixes a :: real
  assumes "a < fold max (map f xs) a"
  shows "\<exists>x. find (\<lambda>x. f x = fold max (map f xs) a) xs = Some x"
proof -
  from fold_max_attained [of "map f xs" a] assms
  have "fold max (map f xs) a \<in> set (map f xs)" by auto
  then obtain x where "x \<in> set xs" "f x = fold max (map f xs) a" by auto
  then have "find (\<lambda>x. f x = fold max (map f xs) a) xs \<noteq> None"
    by (auto simp: find_None_iff)
  then show ?thesis by auto
qed

lemma entries_of_layer_Cons:
  "entries_of_layer (rw # rws) k
    = (if capa_int (capa rw) = Inr k then rw # entries_of_layer rws k else entries_of_layer rws k)"
  by (simp add: entries_of_layer_def)

lemma scan_rows_tables:
  assumes "\<forall>rw\<in>set rws. \<exists>k. capa_int (capa rw) = Inr k \<and> 1 \<le> k \<and> k \<le> 4"
  shows "\<exists>A' D'. scan_rows cat (A, D) rws = Inr (A', D')
     \<and> (\<forall>k. A' k = fold max (map (row_area cat) (entries_of_layer rws k)) (A k))
     \<and> (\<forall>k. D' k = (if A' k > A k
                     then (case find (\<lambda>rw. row_area cat rw = A' k) (entries_of_layer rws k) of
                             None \<Rightarrow> D k
                           | Some rw \<Rightarrow> diameter cat (dia rw))
                     else D k))"
  using assms
proof (induction rws arbitrary: A D)
  case Nil
  show ?case by (simp add: entries_of_layer_def)
next
  case (Cons rw rws)
  from Cons.prems obtain j where j: "capa_int (capa rw) = Inr j" "1 \<le> j" "j \<le> 4"
    by auto
  from Cons.prems have rest: "\<forall>rw\<in>set rws. \<exists>k. capa_int (capa rw) = Inr k \<and> 1 \<le> k \<and> k \<le> 4"
    by simp
  define a where "a = row_area cat rw"
  show ?case
  proof (cases "a > A j")
    case True
    define A1 where "A1 = A(j := a)"
    define D1 where "D1 = D(j := diameter cat (dia rw))"
    have step: "scan_row cat (A, D) rw = Inr (A1, D1)"
      using j True by (simp add: scan_row_def a_def A1_def D1_def Let_def)
    from Cons.IH [OF rest, of A1 D1] obtain A' D' where
      run: "scan_rows cat (A1, D1) rws = Inr (A', D')"
      and A': "\<And>k. A' k = fold max (map (row_area cat) (entries_of_layer rws k)) (A1 k)"
      and D': "\<And>k. D' k = (if A' k > A1 k
                     then (case find (\<lambda>rw. row_area cat rw = A' k) (entries_of_layer rws k) of
                             None \<Rightarrow> D1 k
                           | Some rw \<Rightarrow> diameter cat (dia rw))
                     else D1 k)"
      by blast
    have ge: "a \<le> A' j" unfolding A' [of j] A1_def using fold_max_ge [of a] by simp
    have "scan_rows cat (A, D) (rw # rws) = Inr (A', D')"
      using step run by simp
    moreover have "A' k = fold max (map (row_area cat) (entries_of_layer (rw # rws) k)) (A k)" for k
      using True j(1) by (simp add: A' A1_def entries_of_layer_Cons a_def max_def)
    moreover have "D' k = (if A' k > A k
                     then (case find (\<lambda>rw. row_area cat rw = A' k) (entries_of_layer (rw # rws) k) of
                             None \<Rightarrow> D k
                           | Some rw \<Rightarrow> diameter cat (dia rw))
                     else D k)" for k
    proof (cases "k = j")
      case False
      then have same: "D1 k = D k" "A1 k = A k" by (simp_all add: A1_def D1_def)
      from False have other: "capa_int (capa rw) \<noteq> Inr k" using j(1) by simp
      show ?thesis
        unfolding D' [of k] same entries_of_layer_Cons using other by simp
    next
      case k: True
      have gt: "A' j > A j" using True ge by simp
      show ?thesis
      proof (cases "A' j = a")
        case True
        then show ?thesis
          using gt j(1) unfolding k
          by (simp add: D' [of j] A1_def D1_def entries_of_layer_Cons a_def)
      next
        case False
        then have above: "a < A' j" using ge by simp
        then have "a < fold max (map (row_area cat) (entries_of_layer rws j)) a"
          using A' [of j] by (simp add: A1_def)
        from find_max_entry [OF this] obtain x where
          "find (\<lambda>rw. row_area cat rw = A' j) (entries_of_layer rws j) = Some x"
          using A' [of j] by (auto simp: A1_def)
        then show ?thesis
          using gt above False j(1) unfolding k
          by (simp add: D' [of j] A1_def entries_of_layer_Cons a_def)
      qed
    qed
    ultimately show ?thesis by blast
  next
    case False
    have step: "scan_row cat (A, D) rw = Inr (A, D)"
      using j False by (simp add: scan_row_def a_def Let_def)
    from Cons.IH [OF rest, of A D] obtain A' D' where
      run: "scan_rows cat (A, D) rws = Inr (A', D')"
      and A': "\<And>k. A' k = fold max (map (row_area cat) (entries_of_layer rws k)) (A k)"
      and D': "\<And>k. D' k = (if A' k > A k
                     then (case find (\<lambda>rw. row_area cat rw = A' k) (entries_of_layer rws k) of
                             None \<Rightarrow> D k
                           | Some rw \<Rightarrow> diameter cat (dia rw))
                     else D k)"
      by blast
    have "scan_rows cat (A, D) (rw # rws) = Inr (A', D')"
      using step run by simp
    moreover have "A' k = fold max (map (row_area cat) (entries_of_layer (rw # rws) k)) (A k)" for k
      using False j(1) by (auto simp: A' entries_of_layer_Cons a_def max_def)
    moreover have "D' k = (if A' k > A k
                     then (case find (\<lambda>rw. row_area cat rw = A' k) (entries_of_layer (rw # rws) k) of
                             None \<Rightarrow> D k
                           | Some rw \<Rightarrow> diameter cat (dia rw))
                     else D k)" for k
      using False j(1) by (auto simp: D' [of k] entries_of_layer_Cons a_def)
    ultimately show ?thesis by blast
  qed
qed

lemma calc_effective_depth_run:
  assumes "h_edit st = Some h" "r_edit st = Some r"
    and "\<forall>rw\<in>set (concat (rebar_rows st)). \<exists>k. capa_int (capa rw) = Inr k \<and> 1 \<le> k \<and> k \<le> 4"
  shows "calc_effective_depth cat st
    = Inr (weighted_depth h r (diameter cat (cb_estribo st))
             (largest_entry_area cat (concat (rebar_rows st)))
             (leading_diameter cat (diameter cat (cb_varilla st)) (concat (rebar_rows st))))"
proof -
  define rws where "rws = concat (rebar_rows st)"
  define db where "db = diameter cat (cb_varilla st)"
  from scan_rows_tables [OF assms(3), of cat "\<lambda>k. 0" "\<lambda>k. db"] obtain A' D' where
    run: "scan_rows cat (\<lambda>k. 0, \<lambda>k. db) rws = Inr (A', D')"
    and A': "\<And>k. A' k = fold max (map (row_area cat) (entries_of_layer rws k)) 0"
    and D': "\<And>k. D' k = (if A' k > 0
                     then (case find (\<lambda>rw. row_area cat rw = A' k) (entries_of_layer rws k) of
                             None \<Rightarrow> db
                           | Some rw \<Rightarrow> diameter cat (dia rw))
                     else db)"
    unfolding rws_def by blast
  have A_eq: "A' = largest_entry_area cat rws"
    by (rule ext) (simp add: A' largest_entry_area_def)
  have D_eq: "D' = leading_diameter cat db rws"
    by (rule ext) (simp add: D' leading_diameter_def A_eq)
  show ?thesis
    using assms(1,2) run
    by (simp add: calc_effective_depth_def layered_depth_weighted A_eq D_eq
        rws_def [symmetric] db_def [symmetric])
qed

section \<open>The section loop of the width check\<close>

lemma capa_int_cases:
  assumes "capa rw \<noteq> OtherText"
  obtains k where "capa_int (capa rw) = Inr k"
  using assms by (cases "capa rw") simp_all

lemma tally_rows_sums:
  assumes "\<forall>rw\<in>set rws. capa rw \<noteq> OtherText"
  shows "tally_rows cat acc rws
    = Inr \<lparr>acc_total = acc_total acc + sum_list (map (row_area cat) rws),
           layer1 = \<lparr>n_bars = n_bars (layer1 acc) + layer_bar_count rws 1,
                     sum_d = sum_d (layer1 acc) + layer_diameter_sum cat rws 1\<rparr>,
           layer2 = \<lparr>n_bars = n_bars (layer2 acc) + layer_bar_count rws 2,
                     sum_d = sum_d (layer2 acc) + layer_diameter_sum cat rws 2\<rparr>\<rparr>"
  using assms
proof (induction rws arbitrary: acc)
  case Nil
  show ?case
    by (simp add: layer_bar_count_def layer_diameter_sum_def entries_of_layer_def)
next
  case (Cons rw rws)
  then have ok: "capa rw \<noteq> OtherText" and rest: "\<forall>rw\<in>set rws. capa rw \<noteq> OtherText"
    by simp_all
  from ok obtain k where k: "capa_int (capa rw) = Inr k" by (rule capa_int_cases)
  show ?case
    using k
    by (simp add: Cons.IH [OF rest] tally_row_def add_bars_def Let_def row_area_def
        layer_bar_count_def layer_diameter_sum_def entries_of_layer_Cons algebra_simps)
qed

lemma layer_width_base:
  "layer_width r de \<lparr>n_bars = layer_bar_count rws k, sum_d = layer_diameter_sum cat rws k\<rparr>
    = base_required_layer cat r de rws k"
  by (simp add: layer_width_def base_required_layer_def Let_def)

lemma base_required_section_two:
  "base_required_section cat r de [1, 2]
    = (\<lambda>rws. max (base_required_layer cat r de rws 1) (base_required_layer cat r de rws 2))"
  by (rule ext) (simp add: base_required_section_def)

lemma tally_sections_sums:
  assumes "\<forall>rws\<in>set secs. \<forall>rw\<in>set rws. capa rw \<noteq> OtherText"
  shows "tally_sections cat (Some r) de secs
    = Inr (map (\<lambda>rws. sum_list (map (row_area cat) rws)) secs,
           map (base_required_section cat r de [1, 2]) secs)"
  using assms
proof (induction secs)
  case Nil
  show ?case by simp
next
  case (Cons rws secs)
  then have here: "\<forall>rw\<in>set rws. capa rw \<noteq> OtherText"
    and rest: "\<forall>rws\<in>set secs. \<forall>rw\<in>set rws. capa rw \<noteq> OtherText"
    by simp_all
  show ?case
    by (simp add: tally_rows_sums [OF here] Cons.IH [OF rest] empty_acc_def layer_width_base
        base_required_section_def)
qed

lemma py_max_Max:
  assumes "xs \<noteq> []"
  shows "py_max xs = Inr (Max (set xs))"
proof (cases xs)
  case Nil
  with assms show ?thesis by simp
next
  case (Cons x ys)
  have "Max (set (x # ys)) = fold max ys x" by (rule Max.set_eq_fold)
  then show ?thesis unfolding Cons py_max.simps by (rule arg_cong [OF sym])
qed

lemma update_design_as_run:
  assumes "required_areas cat st = Inr req"
    and "tally_sections cat (r_edit st) (diameter cat (cb_estribo st)) (rebar_rows st) = Inr (tots, bases)"
    and "bases \<noteq> []"
  shows "update_design_as cat st
    = Inr \<lparr>totals = tots, as_total = sum_list tots,
           max_base = Some (Max (set bases)),
           base_msg = Some (base_message (b_edit st) (Max (set bases))),
           statuses = map (\<lambda>p. if fst p \<ge> snd p then ''OK'' else ''NO OK'')
                        (zip tots (as_n req @ as_p req))\<rparr>"
  using assms by (simp add: update_design_as_def Let_def py_max_Max)

lemma section_total_sum:
  "fold (\<lambda>rw total. total + row_area cat rw) rws t = t + sum_list (map (row_area cat) rws)"
  by (induction rws arbitrary: t) simp_all

section \<open>Runs on the example windows\<close>

lemma sample_lookups2:
  \<open>diameter sample_catalog ''3/4"'' = 1.91\<close>
  \<open>area sample_catalog ''3/4"'' = 2.84\<close>
  by (simp_all add: sample_catalog_def diameter_def area_def dict_get_def)

lemma edited_window_eq:
  \<open>edited_window rows0 =
     \<lparr>b_edit = Some 30, h_edit = Some 50, r_edit = Some 4, fc_edit = Some 210,
      fy_edit = Some 4200, phi_edit = Some 0.9,
      cb_estribo = ''3/8"'', cb_varilla = ''5/8"'',
      rebar_rows = [rows0, [new_row 2], [new_row 3], [new_row 4], [new_row 5], [new_row 6]],
      mn_corr = [10, 5, 8], mp_corr = [6, 7, 4]\<rparr>\<close>
  by (simp add: edited_window_def build_ui_eq)

lemma required_areas_returns:
  assumes "b_edit st = Some b" "fc_edit st = Some fc" "fy_edit st = Some fy" "phi_edit st = Some phi"
    and "h_edit st = Some h" "r_edit st = Some r"
    and "fy \<noteq> 0" "6000 + fy \<noteq> 0" "0 \<le> fc" "phi \<noteq> 0"
    and "\<forall>rw\<in>set (concat (rebar_rows st)). \<exists>k. capa_int (capa rw) = Inr k \<and> 1 \<le> k \<and> k \<le> 4"
  shows "\<exists>req. required_areas cat st = Inr req"
proof -
  from calc_effective_depth_run [OF assms(5,6,11), of cat]
  obtain d where d: "calc_effective_depth cat st = Inr d" by blast
  from required_areas_run [OF assms(1-4) d assms(7-10) refl refl refl refl]
  show ?thesis by blast
qed

lemma edited_window_returns:
  assumes "\<forall>rw\<in>set rows0. \<exists>k. capa_int (capa rw) = Inr k \<and> 1 \<le> k \<and> k \<le> 4"
  shows "\<exists>req. required_areas sample_catalog (edited_window rows0) = Inr req"
proof (rule required_areas_returns)
  show "b_edit (edited_window rows0) = Some 30" "fc_edit (edited_window rows0) = Some 210"
    "fy_edit (edited_window rows0) = Some 4200" "phi_edit (edited_window rows0) = Some (9/10)"
    "h_edit (edited_window rows0) = Some 50" "r_edit (edited_window rows0) = Some 4"
    by (simp_all add: edited_window_eq)
  show "(4200::real) \<noteq> 0" "(6000 + 4200::real) \<noteq> 0" "(0::real) \<le> 210" "(9/10::real) \<noteq> 0"
    by simp_all
  show "\<forall>rw\<in>set (concat (rebar_rows (edited_window rows0))).
          \<exists>k. capa_int (capa rw) = Inr k \<and> 1 \<le> k \<and> k \<le> 4"
    using assms by (auto simp: edited_window_eq new_row_def)
qed

lemma edited_window_base:
  assumes "\<forall>rw\<in>set rows0. \<exists>k. capa_int (capa rw) = Inr k \<and> 1 \<le> k \<and> k \<le> 4"
  shows "\<exists>out. update_design_as sample_catalog (edited_window rows0) = Inr out
           \<and> max_base out
               = Some (base_required sample_catalog 4 (19/20) [1, 2] (rebar_rows (edited_window rows0)))
           \<and> base_msg out
               = Some (base_message (Some 30)
                   (base_required sample_catalog 4 (19/20) [1, 2] (rebar_rows (edited_window rows0))))"
proof -
  let ?st = "edited_window rows0"
  from edited_window_returns [OF assms] obtain req where
    req: "required_areas sample_catalog ?st = Inr req" by blast
  have ok: "\<forall>rws\<in>set (rebar_rows ?st). \<forall>rw\<in>set rws. capa rw \<noteq> OtherText"
    using assms by (auto simp: edited_window_eq new_row_def)
  have de: "diameter sample_catalog (cb_estribo ?st) = 19/20"
    by (simp add: edited_window_eq sample_lookups)
  have r: "r_edit ?st = Some 4" and b: "b_edit ?st = Some 30"
    by (simp_all add: edited_window_eq)
  have ne: "rebar_rows ?st \<noteq> []" by (simp add: edited_window_eq)
  have tally: "tally_sections sample_catalog (r_edit ?st) (diameter sample_catalog (cb_estribo ?st))
      (rebar_rows ?st)
      = Inr (map (\<lambda>rws. sum_list (map (row_area sample_catalog) rws)) (rebar_rows ?st),
             map (base_required_section sample_catalog 4 (19/20) [1, 2]) (rebar_rows ?st))"
    unfolding r de by (rule tally_sections_sums [OF ok])
  have bases: "map (base_required_section sample_catalog 4 (19/20) [1, 2]) (rebar_rows ?st) \<noteq> []"
    using ne by simp
  show ?thesis
    unfolding update_design_as_run [OF req tally bases]
    using b by (simp add: base_required_def)
qed

lemma base_three_bars:
  \<open>base_required sample_catalog 4 (19/20) [1, 2]
     (rebar_rows (edited_window [\<lparr>qty = IntText 3, dia = ''3/4"'', capa = IntText 1, widget = 1\<rparr>]))
   = 2063/100\<close>
  by (simp add: edited_window_eq base_required_def base_required_section_def
      base_required_layer_def layer_bar_count_def layer_diameter_sum_def entries_of_layer_def
      new_row_def sample_lookups sample_lookups2)

lemma base_third_layer:
  \<open>base_required sample_catalog 4 (19/20) [1, 2]
     (rebar_rows (edited_window
        [new_row 1, \<lparr>qty = IntText 10, dia = ''1"'', capa = IntText 3, widget = 7\<rparr>]))
   = 747/50\<close>
  \<open>base_required sample_catalog 4 (19/20) [1, 2, 3, 4]
     (rebar_rows (edited_window
        [new_row 1, \<lparr>qty = IntText 10, dia = ''1"'', capa = IntText 3, widget = 7\<rparr>]))
   = 289/5\<close>
  by (simp_all add: edited_window_eq base_required_def base_required_section_def
      base_required_layer_def layer_bar_count_def layer_diameter_sum_def entries_of_layer_def
      new_row_def sample_lookups sample_lookups2)

lemma base_unselected:
  \<open>base_required sample_catalog 4 (19/20) [1, 2]
     (rebar_rows (edited_window
        [new_row 1, \<lparr>qty = IntText 3, dia = [], capa = IntText 1, widget = 7\<rparr>]))
   = 561/25\<close>
  \<open>base_required sample_catalog 4 (19/20) [1, 2] (rebar_rows (edited_window [new_row 1]))
   = 747/50\<close>
  by (simp_all add: edited_window_eq base_required_def base_required_section_def
      base_required_layer_def layer_bar_count_def layer_diameter_sum_def entries_of_layer_def
      new_row_def sample_lookups sample_lookups2)

section \<open>Effective depth as a weighted average\<close>

text \<open>
  Claim C1, as the code has it. When \<open>h\<close> and \<open>r\<close> are numbers and every row is assigned to
  one of the layers 1 to 4, the effective depth is the average of the centroid depths
  \<open>d1\<close> to \<open>dk\<close>, \<open>k\<close> the highest layer of positive weight (1 when there is none),
  weighted by the layers' weights, and \<open>d1\<close> when the weights add up to zero. The weight of
  a layer is the largest area (quantity times catalogue area) of a single entry assigned
  to it, over the rows of all sections; its representative diameter is the diameter of
  the first entry with that area, and the diameter of the longitudinal bar when the layer
  has no entry of positive area.
\<close>

theorem effective_depth_weighted:
  assumes "h_edit st = Some h" and "r_edit st = Some r"
    and "\<forall>rw\<in>set (concat (rebar_rows st)). \<exists>k. capa_int (capa rw) = Inr k \<and> 1 \<le> k \<and> k \<le> 4"
  shows "calc_effective_depth cat st
           = Inr (weighted_depth h r (diameter cat (cb_estribo st))
                    (largest_entry_area cat (concat (rebar_rows st)))
                    (leading_diameter cat (diameter cat (cb_varilla st)) (concat (rebar_rows st))))
         \<and> (\<forall>k. largest_entry_area cat (concat (rebar_rows st)) k
                = Max (insert 0 (row_area cat ` set (entries_of_layer (concat (rebar_rows st)) k))))"
proof -
  have "largest_entry_area cat rws k = Max (insert 0 (row_area cat ` set (entries_of_layer rws k)))"
    for rws k
  proof -
    have "Max (set (0 # map (row_area cat) (entries_of_layer rws k)))
        = fold max (map (row_area cat) (entries_of_layer rws k)) 0"
      by (rule Max.set_eq_fold)
    then show ?thesis by (simp add: largest_entry_area_def)
  qed
  then show ?thesis
    using calc_effective_depth_run [OF assms, of cat] by simp
qed

theorem effective_depth_weighted_witness:
  "h_edit (edited_window [new_row 1, (new_row 7)\<lparr>capa := IntText 2\<rparr>]) = Some 50
   \<and> r_edit (edited_window [new_row 1, (new_row 7)\<lparr>capa := IntText 2\<rparr>]) = Some 4
   \<and> list_all (\<lambda>rw. capa rw = IntText 1 \<or> capa rw = IntText 2)
        (concat (rebar_rows (edited_window [new_row 1, (new_row 7)\<lparr>capa := IntText 2\<rparr>])))
   \<and> calc_effective_depth sample_catalog
        (edited_window [new_row 1, (new_row 7)\<lparr>capa := IntText 2\<rparr>])
       = Inr (4253/100)"
proof -
  let ?st = "edited_window [new_row 1, (new_row 7)\<lparr>capa := IntText 2\<rparr>]"
  have h: "h_edit ?st = Some 50" and r: "r_edit ?st = Some 4"
    by (simp_all add: edited_window_eq)
  have layers: "list_all (\<lambda>rw. capa rw = IntText 1 \<or> capa rw = IntText 2)
        (concat (rebar_rows ?st))"
    by (simp add: edited_window_eq new_row_def)
  have ok: "\<forall>rw\<in>set (concat (rebar_rows ?st)).
      \<exists>k. capa_int (capa rw) = Inr k \<and> 1 \<le> k \<and> k \<le> 4"
    by (simp add: edited_window_eq new_row_def)
  have v: "weighted_depth 50 4 (diameter sample_catalog (cb_estribo ?st))
             (largest_entry_area sample_catalog (concat (rebar_rows ?st)))
             (leading_diameter sample_catalog (diameter sample_catalog (cb_varilla ?st))
                (concat (rebar_rows ?st)))
           = 4253/100"
    by (simp add: edited_window_eq weighted_depth_def leading_diameter_def
        largest_entry_area_def entries_of_layer_def highest_layer_def centroid_depth_def
        new_row_def row_area_def sample_lookups upto_1_2 Let_def)
  from effective_depth_weighted [OF h r ok, of sample_catalog]
  have "calc_effective_depth sample_catalog ?st = Inr (4253/100)"
    unfolding v by (rule conjunct1)
  then show ?thesis using h r layers by simp
qed

text \<open>
  Two rows of two 1/2" bars in layer 1 and one such row in layer 2, in the first section of
  the window as built: the code weighs the layers 2.58 to 2.58 and returns 42.53, while the
  average weighted by the total areas of the layers is 43.94375.
\<close>

theorem effective_depth_not_total_area:
  "calc_effective_depth sample_catalog
     (edited_window [new_row 1, new_row 7, (new_row 8)\<lparr>capa := IntText 2\<rparr>])
     = Inr (4253/100)
   \<and> weighted_depth 50 4 (19/20)
       (total_layer_area sample_catalog
          (concat (rebar_rows (edited_window [new_row 1, new_row 7, (new_row 8)\<lparr>capa := IntText 2\<rparr>]))))
       (leading_diameter sample_catalog (159/100)
          (concat (rebar_rows (edited_window [new_row 1, new_row 7, (new_row 8)\<lparr>capa := IntText 2\<rparr>]))))
     = 7031/160
   \<and> (4253/100 :: real) \<noteq> 7031/160"
proof -
  let ?st = "edited_window [new_row 1, new_row 7, (new_row 8)\<lparr>capa := IntText 2\<rparr>]"
  have c: "calc_effective_depth sample_catalog ?st = Inr (4253/100)"
    by (simp add: edited_window_eq calc_effective_depth_def scan_row_def new_row_def row_area_def
        sample_lookups layered_depth_def detect_max_layer_def Let_def)
  have w: "weighted_depth 50 4 (19/20)
       (total_layer_area sample_catalog (concat (rebar_rows ?st)))
       (leading_diameter sample_catalog (159/100) (concat (rebar_rows ?st))) = 7031/160"
    by (simp add: edited_window_eq weighted_depth_def total_layer_area_def leading_diameter_def
        largest_entry_area_def entries_of_layer_def highest_layer_def centroid_depth_def
        new_row_def row_area_def sample_lookups upto_1_2 Let_def)
  show ?thesis using c w by simp
qed

section \<open>Required base width\<close>

text \<open>
  Claim C5, as the code has it. When the required-area pass returns, every layer field
  holds an integer or is empty, and \<open>r\<close> and \<open>b\<close> are numbers, \<^verbatim>\<open>update_design_as\<close> returns;
  the width of layer \<open>k\<close> of a section is
  \<open>2 r + 2 de + max (n - 1, 0) * 2.5 + (sum of the diameters of its bars)\<close>; the width of a
  section is the larger of the widths of its layers 1 and 2 (bars of the layers 3 and 4
  are not counted); the reported width is the maximum over the sections; and the message
  is "OK" exactly when the reported width is at most \<open>b\<close>, "Aumentar base o capa" otherwise.
\<close>

theorem base_width_check:
  assumes "required_areas cat st = Inr req"
    and "\<forall>rws\<in>set (rebar_rows st). \<forall>rw\<in>set rws. capa rw \<noteq> OtherText"
    and "rebar_rows st \<noteq> []"
    and "r_edit st = Some r" and "b_edit st = Some b"
    and "de = diameter cat (cb_estribo st)"
  shows "\<exists>out. update_design_as cat st = Inr out
           \<and> max_base out = Some (base_required cat r de [1, 2] (rebar_rows st))
           \<and> base_required cat r de [1, 2] (rebar_rows st)
               = Max (set (map (\<lambda>rws. max (base_required_layer cat r de rws 1)
                                             (base_required_layer cat r de rws 2)) (rebar_rows st)))
           \<and> (\<forall>rws k. base_required_layer cat r de rws k
                 = 2 * r + 2 * de + real_of_int (max (layer_bar_count rws k - 1) 0) * 2.5
                     + layer_diameter_sum cat rws k)
           \<and> base_msg out
               = Some (if base_required cat r de [1, 2] (rebar_rows st) \<le> b then ''OK''
                       else ''Aumentar base o capa'')
           \<and> (base_msg out = Some ''OK'' \<longleftrightarrow> base_required cat r de [1, 2] (rebar_rows st) \<le> b)"
proof -
  define bases where "bases = map (base_required_section cat r de [1, 2]) (rebar_rows st)"
  define tots where "tots = map (\<lambda>rws. sum_list (map (row_area cat) rws)) (rebar_rows st)"
  have ne: "bases \<noteq> []" using assms(3) by (simp add: bases_def)
  have tally: "tally_sections cat (r_edit st) (diameter cat (cb_estribo st)) (rebar_rows st)
      = Inr (tots, bases)"
    unfolding assms(4) assms(6) [symmetric] tots_def bases_def
    by (rule tally_sections_sums [OF assms(2)])
  have mb: "Max (set bases) = base_required cat r de [1, 2] (rebar_rows st)"
    by (simp add: bases_def base_required_def)
  have sec: "base_required cat r de [1, 2] (rebar_rows st)
               = Max (set (map (\<lambda>rws. max (base_required_layer cat r de rws 1)
                                             (base_required_layer cat r de rws 2)) (rebar_rows st)))"
    by (simp add: base_required_def base_required_section_two)
  show ?thesis
    unfolding update_design_as_run [OF assms(1) tally ne]
    using mb sec assms(5)
    by (simp add: base_message_def base_required_layer_def)
qed

theorem base_width_check_witness:
  \<open>(\<exists>req. required_areas sample_catalog
             (edited_window [\<lparr>qty = IntText 3, dia = ''3/4"'', capa = IntText 1, widget = 1\<rparr>])
           = Inr req)
   \<and> r_edit (edited_window [\<lparr>qty = IntText 3, dia = ''3/4"'', capa = IntText 1, widget = 1\<rparr>])
       = Some 4
   \<and> b_edit (edited_window [\<lparr>qty = IntText 3, dia = ''3/4"'', capa = IntText 1, widget = 1\<rparr>])
       = Some 30
   \<and> (\<exists>out. update_design_as sample_catalog
               (edited_window [\<lparr>qty = IntText 3, dia = ''3/4"'', capa = IntText 1, widget = 1\<rparr>])
             = Inr out
          \<and> max_base out = Some (2063/100) \<and> base_msg out = Some ''OK'')\<close>
proof -
  let ?st = \<open>edited_window [\<lparr>qty = IntText 3, dia = ''3/4"'', capa = IntText 1, widget = 1\<rparr>]\<close>
  have "\<exists>req. required_areas sample_catalog ?st = Inr req"
    by (rule edited_window_returns) simp
  then obtain req where req: "required_areas sample_catalog ?st = Inr req" by blast
  have ok: "\<forall>rws\<in>set (rebar_rows ?st). \<forall>rw\<in>set rws. capa rw \<noteq> OtherText"
    by (simp add: edited_window_eq new_row_def)
  have ne: "rebar_rows ?st \<noteq> []" by (simp add: edited_window_eq)
  have r: "r_edit ?st = Some 4" and b: "b_edit ?st = Some 30"
    by (simp_all add: edited_window_eq)
  have de: "19/20 = diameter sample_catalog (cb_estribo ?st)"
    by (simp add: edited_window_eq sample_lookups)
  from base_width_check [OF req ok ne r b de]
  have "\<exists>out. update_design_as sample_catalog ?st = Inr out
          \<and> max_base out = Some (2063/100) \<and> base_msg out = Some ''OK''"
    unfolding base_three_bars by auto
  then show ?thesis using req r b by blast
qed

text \<open>
  Ten 1" bars in layer 3 of the first section need 57.8 cm, above \<open>b = 30\<close>; the code
  reports 14.94 cm, the width of layer 1, and the message "OK".
\<close>

theorem third_layer_not_checked:
  \<open>map_sum id max_base
     (update_design_as sample_catalog
        (edited_window [new_row 1, \<lparr>qty = IntText 10, dia = ''1"'', capa = IntText 3, widget = 7\<rparr>]))
     = Inr (Some (747/50))
   \<and> map_sum id base_msg
     (update_design_as sample_catalog
        (edited_window [new_row 1, \<lparr>qty = IntText 10, dia = ''1"'', capa = IntText 3, widget = 7\<rparr>]))
     = Inr (Some ''OK'')
   \<and> base_required sample_catalog 4 (19/20) [1, 2, 3, 4]
       (rebar_rows
          (edited_window [new_row 1, \<lparr>qty = IntText 10, dia = ''1"'', capa = IntText 3, widget = 7\<rparr>]))
     = 289/5
   \<and> \<not> (289/5 \<le> (30::real))\<close>
proof -
  let ?st = \<open>edited_window [new_row 1, \<lparr>qty = IntText 10, dia = ''1"'', capa = IntText 3, widget = 7\<rparr>]\<close>
  have "\<exists>out. update_design_as sample_catalog ?st = Inr out
           \<and> max_base out = Some (base_required sample_catalog 4 (19/20) [1, 2] (rebar_rows ?st))
           \<and> base_msg out = Some (base_message (Some 30)
                   (base_required sample_catalog 4 (19/20) [1, 2] (rebar_rows ?st)))"
    by (rule edited_window_base) (simp add: new_row_def)
  then obtain out where "update_design_as sample_catalog ?st = Inr out"
    "max_base out = Some (747/50)" "base_msg out = Some ''OK''"
    unfolding base_third_layer by (auto simp: base_message_def)
  then show ?thesis
    using base_third_layer(2) by simp
qed

section \<open>Catalogue lookups\<close>

text \<open>
  Claim C7, as the code has it. The lookups are \<^verbatim>\<open>dict.get(key, 0)\<close>: a number for every
  key, 0 for a key the dictionary does not have. A row whose key is unknown has area 0:
  it adds nothing to the areas of the design and leaves the tables of the effective depth
  as they are. In the width check it adds nothing to the total and nothing to the sum of
  diameters, but its quantity is added to the bar count of its layer, and so to the
  spacing of the layer's width.
\<close>

theorem unknown_key_contribution:
  "area cat key = (case BAR_DATA cat key of None \<Rightarrow> 0 | Some a \<Rightarrow> a)
   \<and> diameter cat key = (case DIAM_CM cat key of None \<Rightarrow> 0 | Some dm \<Rightarrow> dm)
   \<and> (BAR_DATA cat key = None \<longrightarrow> area cat key = 0)
   \<and> (DIAM_CM cat key = None \<longrightarrow> diameter cat key = 0)
   \<and> (BAR_DATA cat (dia rw) = None \<longrightarrow>
        row_area cat rw = 0
        \<and> (\<forall>i < length (rebar_rows st).
              design_areas cat (st\<lparr>rebar_rows := (rebar_rows st)[i := rebar_rows st ! i @ [rw]]\<rparr>)
                = design_areas cat st))
   \<and> (BAR_DATA cat (dia rw) = None \<and> capa_int (capa rw) = Inr k \<and> 1 \<le> k \<and> k \<le> 4
        \<and> 0 \<le> fst tabs k \<longrightarrow> scan_row cat tabs rw = Inr tabs)
   \<and> (BAR_DATA cat (dia rw) = None \<and> DIAM_CM cat (dia rw) = None \<and> capa_int (capa rw) = Inr k
        \<longrightarrow> (\<exists>acc'. tally_row cat acc rw = Inr acc'
               \<and> acc_total acc' = acc_total acc
               \<and> sum_d (layer1 acc') = sum_d (layer1 acc)
               \<and> sum_d (layer2 acc') = sum_d (layer2 acc)
               \<and> n_bars (layer1 acc') = n_bars (layer1 acc) + (if k = 1 then qty_int (qty rw) else 0)
               \<and> n_bars (layer2 acc') = n_bars (layer2 acc) + (if k = 2 then qty_int (qty rw) else 0)))"
proof (intro conjI impI allI)
  show "area cat key = (case BAR_DATA cat key of None \<Rightarrow> 0 | Some a \<Rightarrow> a)"
    by (simp add: area_def dict_get_def)
  show "diameter cat key = (case DIAM_CM cat key of None \<Rightarrow> 0 | Some dm \<Rightarrow> dm)"
    by (simp add: diameter_def dict_get_def)
  show "area cat key = 0" if "BAR_DATA cat key = None"
    using that by (simp add: area_def dict_get_def)
  show "diameter cat key = 0" if "DIAM_CM cat key = None"
    using that by (simp add: diameter_def dict_get_def)
  show z: "row_area cat rw = 0" if "BAR_DATA cat (dia rw) = None"
    using that by (simp add: row_area_def area_def dict_get_def)
  show "design_areas cat (st\<lparr>rebar_rows := (rebar_rows st)[i := rebar_rows st ! i @ [rw]]\<rparr>)
      = design_areas cat st"
    if "BAR_DATA cat (dia rw) = None" "i < length (rebar_rows st)" for i
  proof -
    have "map (\<lambda>rows. fold (\<lambda>rw total. total + row_area cat rw) rows 0)
            ((rebar_rows st)[i := rebar_rows st ! i @ [rw]])
        = map (\<lambda>rows. fold (\<lambda>rw total. total + row_area cat rw) rows 0) (rebar_rows st)"
      using that(2) z [OF that(1)]
      by (simp add: map_update section_total_sum list_update_same_conv)
    then show ?thesis by (simp add: design_areas_def)
  qed
  show "scan_row cat tabs rw = Inr tabs"
    if "BAR_DATA cat (dia rw) = None \<and> capa_int (capa rw) = Inr k \<and> 1 \<le> k \<and> k \<le> 4
        \<and> 0 \<le> fst tabs k"
    using that z by (simp add: scan_row_def Let_def)
  show "\<exists>acc'. tally_row cat acc rw = Inr acc'
               \<and> acc_total acc' = acc_total acc
               \<and> sum_d (layer1 acc') = sum_d (layer1 acc)
               \<and> sum_d (layer2 acc') = sum_d (layer2 acc)
               \<and> n_bars (layer1 acc') = n_bars (layer1 acc) + (if k = 1 then qty_int (qty rw) else 0)
               \<and> n_bars (layer2 acc') = n_bars (layer2 acc) + (if k = 2 then qty_int (qty rw) else 0)"
    if "BAR_DATA cat (dia rw) = None \<and> DIAM_CM cat (dia rw) = None \<and> capa_int (capa rw) = Inr k"
    using that
    by (simp add: tally_row_def add_bars_def Let_def area_def diameter_def dict_get_def)
qed

theorem unknown_key_contribution_witness:
  "BAR_DATA sample_catalog ''bogus'' = None \<and> DIAM_CM sample_catalog ''bogus'' = None
   \<and> area sample_catalog ''bogus'' = 0 \<and> diameter sample_catalog ''bogus'' = 0
   \<and> capa_int (capa \<lparr>qty = IntText 3, dia = ''bogus'', capa = IntText 1, widget = 7\<rparr>) = Inr 1
   \<and> row_area sample_catalog \<lparr>qty = IntText 3, dia = ''bogus'', capa = IntText 1, widget = 7\<rparr> = 0
   \<and> (0::nat) < length (rebar_rows (edited_window [new_row 1]))
   \<and> design_areas sample_catalog
        (edited_window [new_row 1, \<lparr>qty = IntText 3, dia = ''bogus'', capa = IntText 1, widget = 7\<rparr>])
       = design_areas sample_catalog (edited_window [new_row 1])
   \<and> (\<exists>acc'. tally_row sample_catalog empty_acc
                \<lparr>qty = IntText 3, dia = ''bogus'', capa = IntText 1, widget = 7\<rparr> = Inr acc'
         \<and> acc_total acc' = 0 \<and> sum_d (layer1 acc') = 0 \<and> n_bars (layer1 acc') = 3)"
proof -
  let ?rw = "\<lparr>qty = IntText 3, dia = ''bogus'', capa = IntText 1, widget = 7\<rparr>"
  let ?st = "edited_window [new_row 1]"
  have a: "BAR_DATA sample_catalog (dia ?rw) = None" and d: "DIAM_CM sample_catalog (dia ?rw) = None"
    and c: "capa_int (capa ?rw) = Inr 1"
    by (simp_all add: sample_catalog_def)
  have i: "(0::nat) < length (rebar_rows ?st)" by (simp add: edited_window_eq)
  have upd: "?st\<lparr>rebar_rows := (rebar_rows ?st)[0 := rebar_rows ?st ! 0 @ [?rw]]\<rparr>
      = edited_window [new_row 1, ?rw]"
    by (simp add: edited_window_eq)
  note T = unknown_key_contribution [of sample_catalog "''bogus''" ?rw ?st 1 "(\<lambda>k. 0, \<lambda>k. 0)" empty_acc]
  have des: "design_areas sample_catalog (edited_window [new_row 1, ?rw])
      = design_areas sample_catalog ?st"
    using T a i unfolding upd [symmetric] by blast
  have t: "\<exists>acc'. tally_row sample_catalog empty_acc ?rw = Inr acc'
         \<and> acc_total acc' = 0 \<and> sum_d (layer1 acc') = 0 \<and> n_bars (layer1 acc') = 3"
    using T a d c by (auto simp: empty_acc_def)
  have l: "area sample_catalog ''bogus'' = 0" "diameter sample_catalog ''bogus'' = 0"
    "row_area sample_catalog ?rw = 0"
    using T a d by auto
  show ?thesis using a d c i des t l by simp
qed

text \<open>
  A row of three bars with no diameter selected, added to layer 1 of the first section,
  raises the reported width from 14.94 cm to 22.44 cm.
\<close>

theorem unselected_row_widens_base:
  "diameter sample_catalog [] = 0 \<and> area sample_catalog [] = 0
   \<and> map_sum id max_base
       (update_design_as sample_catalog
          (edited_window [new_row 1, \<lparr>qty = IntText 3, dia = [], capa = IntText 1, widget = 7\<rparr>]))
       = Inr (Some (561/25))
   \<and> map_sum id max_base (update_design_as sample_catalog (edited_window [new_row 1]))
       = Inr (Some (747/50))
   \<and> (561/25 :: real) \<noteq> 747/50"
proof -
  let ?st = "edited_window [new_row 1, \<lparr>qty = IntText 3, dia = [], capa = IntText 1, widget = 7\<rparr>]"
  have "\<exists>out. update_design_as sample_catalog ?st = Inr out
           \<and> max_base out = Some (base_required sample_catalog 4 (19/20) [1, 2] (rebar_rows ?st))
           \<and> base_msg out = Some (base_message (Some 30)
                   (base_required sample_catalog 4 (19/20) [1, 2] (rebar_rows ?st)))"
    by (rule edited_window_base) (simp add: new_row_def)
  then have one: "map_sum id max_base (update_design_as sample_catalog ?st) = Inr (Some (561/25))"
    unfolding base_unselected by auto
  have "\<exists>out. update_design_as sample_catalog (edited_window [new_row 1]) = Inr out
           \<and> max_base out = Some (base_required sample_catalog 4 (19/20) [1, 2]
                                    (rebar_rows (edited_window [new_row 1])))
           \<and> base_msg out = Some (base_message (Some 30)
                   (base_required sample_catalog 4 (19/20) [1, 2]
                      (rebar_rows (edited_window [new_row 1]))))"
    by (rule edited_window_base) (simp add: new_row_def)
  then have two: "map_sum id max_base (update_design_as sample_catalog (edited_window [new_row 1]))
      = Inr (Some (747/50))"
    unfolding base_unselected by auto
  show ?thesis using one two by (simp add: sample_lookups)
qed

section \<open>The number of rows of a section\<close>

lemma fold_max_nat_ge: "w \<in> set ws \<Longrightarrow> w \<le> fold max ws (a::nat)"
proof (induction ws arbitrary: a)
  case Nil
  then show ?case by simp
next
  case (Cons x xs)
  have mono: "b \<le> fold max xs b" for b :: nat
  proof (induction xs arbitrary: b)
    case Nil
    show ?case by simp
  next
    case (Cons y ys)
    have "b \<le> max y b" by simp
    also have "\<dots> \<le> fold max ys (max y b)" by (rule Cons.IH)
    finally show ?case by simp
  qed
  show ?case
  proof (cases "w = x")
    case True
    have "x \<le> max x a" by simp
    also have "\<dots> \<le> fold max xs (max x a)" by (rule mono)
    finally show ?thesis using True by simp
  next
    case False
    with Cons.prems have "w \<in> set xs" by simp
    then show ?thesis using Cons.IH by simp
  qed
qed

lemma fresh_widget_new:
  assumes "idx < length (rebar_rows st)"
  shows "fresh_widget st \<notin> widget ` set (rebar_rows st ! idx)"
proof
  assume "fresh_widget st \<in> widget ` set (rebar_rows st ! idx)"
  then obtain rw where rw: "rw \<in> set (rebar_rows st ! idx)" "widget rw = fresh_widget st"
    by auto
  have "rebar_rows st ! idx \<in> set (rebar_rows st)" using assms by simp
  then have "rw \<in> set (concat (rebar_rows st))" using rw(1) by auto
  then have "widget rw \<in> set (map widget (concat (rebar_rows st)))" by simp
  then have "widget rw \<le> fold max (map widget (concat (rebar_rows st))) 0"
    by (rule fold_max_nat_ge)
  then show False using rw(2) by (simp add: fresh_widget_def)
qed

lemma filter_other_length:
  assumes "distinct (map f xs)"
  shows "length xs - 1 \<le> length (filter (\<lambda>x. f x \<noteq> w) xs)"
  using assms
proof (induction xs)
  case Nil
  show ?case by simp
next
  case (Cons x xs)
  show ?case
  proof (cases "f x = w")
    case True
    have "f y \<noteq> w" if "y \<in> set xs" for y
      using that Cons.prems True by (auto simp: image_iff)
    then have "\<forall>y\<in>set xs. f y \<noteq> w" by blast
    then have "filter (\<lambda>x. f x \<noteq> w) xs = xs" by (simp add: filter_id_conv)
    then show ?thesis using True by simp
  next
    case False
    from Cons have "length xs - 1 \<le> length (filter (\<lambda>x. f x \<noteq> w) xs)" by simp
    then show ?thesis using False by simp
  qed
qed

lemma all_rows_update:
  assumes "\<forall>rows\<in>set xs. rows_ok rows" "rows_ok ys"
  shows "\<forall>rows\<in>set (xs[i := ys]). rows_ok rows"
  using assms set_update_subset_insert [of xs i ys] by auto

lemma add_rebar_row_ok:
  assumes "\<forall>rows\<in>set (rebar_rows st). rows_ok rows"
  shows "\<forall>rows\<in>set (rebar_rows (fst (add_rebar_row idx st))). rows_ok rows"
proof (cases "idx < length (rebar_rows st) \<and> length (rebar_rows st ! idx) < 4")
  case False
  then show ?thesis using assms by (auto simp: add_rebar_row_def)
next
  case True
  then have here: "rows_ok (rebar_rows st ! idx)" using assms by simp
  have fresh: "fresh_widget st \<notin> widget ` set (rebar_rows st ! idx)"
    using True by (intro fresh_widget_new) simp
  have "widget (new_row (fresh_widget st)) = fresh_widget st" by (simp add: new_row_def)
  then have "rows_ok (rebar_rows st ! idx @ [new_row (fresh_widget st)])"
    using here True fresh by (simp add: rows_ok_def)
  moreover have "rebar_rows (fst (add_rebar_row idx st))
      = (rebar_rows st)[idx := rebar_rows st ! idx @ [new_row (fresh_widget st)]]"
    using True by (simp add: add_rebar_row_def)
  ultimately show ?thesis
    using all_rows_update [OF assms] by simp
qed

lemma remove_rebar_row_ok:
  assumes "\<forall>rows\<in>set (rebar_rows st). rows_ok rows"
  shows "\<forall>rows\<in>set (rebar_rows (fst (remove_rebar_row cat idx w st))). rows_ok rows"
proof (cases "idx < length (rebar_rows st) \<and> 1 < length (rebar_rows st ! idx)")
  case False
  then show ?thesis using assms by (auto simp: remove_rebar_row_def)
next
  case True
  then have here: "rows_ok (rebar_rows st ! idx)" using assms by simp
  let ?rows = "filter (\<lambda>r. widget r \<noteq> w) (rebar_rows st ! idx)"
  have "length (rebar_rows st ! idx) - 1 \<le> length ?rows"
    using here by (intro filter_other_length) (simp add: rows_ok_def)
  then have "1 \<le> length ?rows" using True by linarith
  moreover have "length ?rows \<le> 4"
  proof -
    have "length ?rows \<le> length (rebar_rows st ! idx)" by (rule length_filter_le)
    also have "\<dots> \<le> 4" using here by (simp add: rows_ok_def)
    finally show ?thesis .
  qed
  moreover have "distinct (map widget ?rows)"
    using here by (simp add: rows_ok_def distinct_map_filter)
  ultimately have "rows_ok ?rows" by (simp add: rows_ok_def)
  moreover have "rebar_rows (fst (remove_rebar_row cat idx w st)) = (rebar_rows st)[idx := ?rows]"
    using True by (simp add: remove_rebar_row_def Let_def)
  ultimately show ?thesis
    using all_rows_update [OF assms] by simp
qed

lemma apply_row_op_ok:
  assumes "\<forall>rows\<in>set (rebar_rows st). rows_ok rows"
  shows "\<forall>rows\<in>set (rebar_rows (apply_row_op cat x st)). rows_ok rows"
proof (cases x)
  case (AddRow idx)
  show ?thesis
    unfolding AddRow apply_row_op.simps by (rule add_rebar_row_ok [OF assms])
next
  case (RemoveRow idx w)
  show ?thesis
    unfolding RemoveRow apply_row_op.simps by (rule remove_rebar_row_ok [OF assms])
qed

lemma apply_row_op_sections:
  "length (rebar_rows (apply_row_op cat x st)) = length (rebar_rows st)"
  by (cases x) (simp_all add: add_rebar_row_def remove_rebar_row_def Let_def)

lemma row_ops_ok:
  assumes "\<forall>rows\<in>set (rebar_rows st). rows_ok rows"
  shows "\<forall>rows\<in>set (rebar_rows (fold (apply_row_op cat) ops st)). rows_ok rows"
  using assms
proof (induction ops arbitrary: st)
  case Nil
  then show ?case by simp
next
  case (Cons x ops)
  from Cons.prems have "\<forall>rows\<in>set (rebar_rows (apply_row_op cat x st)). rows_ok rows"
    by (rule apply_row_op_ok)
  then show ?case using Cons.IH by simp
qed

lemma row_ops_sections:
  "length (rebar_rows (fold (apply_row_op cat) ops st)) = length (rebar_rows st)"
  by (induction ops arbitrary: st) (simp_all add: apply_row_op_sections)

lemma build_ui_ok: "\<forall>rows\<in>set (rebar_rows (build_ui mn mp)). rows_ok rows"
  by (simp add: build_ui_eq rows_ok_def)

text \<open>
  Claim C9. After any sequence of presses of the add and remove buttons on the window as
  built, every one of the six sections has between 1 and 4 rows. Adding is a no-op on a
  section of 4 rows, and removing is a no-op on a section of one row.
\<close>

theorem rows_between_one_and_four:
  "(\<forall>rows\<in>set (rebar_rows (fold (apply_row_op cat) ops (build_ui mn mp))).
       1 \<le> length rows \<and> length rows \<le> 4)
   \<and> length (rebar_rows (fold (apply_row_op cat) ops (build_ui mn mp))) = 6
   \<and> (idx < length (rebar_rows st) \<and> 4 \<le> length (rebar_rows st ! idx)
        \<longrightarrow> add_rebar_row idx st = (st, None))
   \<and> (idx < length (rebar_rows st) \<and> length (rebar_rows st ! idx) \<le> 1
        \<longrightarrow> remove_rebar_row cat idx w st = (st, None))"
proof (intro conjI impI)
  show "\<forall>rows\<in>set (rebar_rows (fold (apply_row_op cat) ops (build_ui mn mp))).
       1 \<le> length rows \<and> length rows \<le> 4"
    using row_ops_ok [OF build_ui_ok, of cat ops mn mp] by (simp add: rows_ok_def)
  show "length (rebar_rows (fold (apply_row_op cat) ops (build_ui mn mp))) = 6"
    by (simp add: row_ops_sections build_ui_eq)
  show "add_rebar_row idx st = (st, None)"
    if "idx < length (rebar_rows st) \<and> 4 \<le> length (rebar_rows st ! idx)"
    using that by (simp add: add_rebar_row_def)
  show "remove_rebar_row cat idx w st = (st, None)"
    if "idx < length (rebar_rows st) \<and> length (rebar_rows st ! idx) \<le> 1"
    using that by (simp add: remove_rebar_row_def)
qed

theorem rows_between_one_and_four_witness:
  "list_all (\<lambda>rows. 1 \<le> length rows \<and> length rows \<le> 4)
     (rebar_rows (fold (apply_row_op sample_catalog)
        [AddRow 0, AddRow 0, AddRow 0, AddRow 0, RemoveRow 0 7, RemoveRow 1 2]
        (build_ui [10, 5, 8] [6, 7, 4])))
   \<and> map length (rebar_rows (fold (apply_row_op sample_catalog)
        [AddRow 0, AddRow 0, AddRow 0, AddRow 0, RemoveRow 0 7, RemoveRow 1 2]
        (build_ui [10, 5, 8] [6, 7, 4]))) = [3, 1, 1, 1, 1, 1]
   \<and> (0::nat) < length (rebar_rows (edited_window [new_row 1, new_row 7, new_row 8, new_row 9]))
   \<and> 4 \<le> length (rebar_rows (edited_window [new_row 1, new_row 7, new_row 8, new_row 9]) ! 0)
   \<and> add_rebar_row 0 (edited_window [new_row 1, new_row 7, new_row 8, new_row 9])
       = (edited_window [new_row 1, new_row 7, new_row 8, new_row 9], None)
   \<and> (1::nat) < length (rebar_rows (build_ui [10, 5, 8] [6, 7, 4]))
   \<and> length (rebar_rows (build_ui [10, 5, 8] [6, 7, 4]) ! 1) \<le> 1
   \<and> remove_rebar_row sample_catalog 1 2 (build_ui [10, 5, 8] [6, 7, 4])
       = (build_ui [10, 5, 8] [6, 7, 4], None)"
proof -
  let ?ops = "[AddRow 0, AddRow 0, AddRow 0, AddRow 0, RemoveRow 0 7, RemoveRow 1 2]"
  let ?end = "fold (apply_row_op sample_catalog) ?ops (build_ui [10, 5, 8] [6, 7, 4])"
  let ?full = "edited_window [new_row 1, new_row 7, new_row 8, new_row 9]"
  let ?st = "build_ui [10, 5, 8] [6, 7, 4]"
  have a: "list_all (\<lambda>rows. 1 \<le> length rows \<and> length rows \<le> 4) (rebar_rows ?end)"
    using rows_between_one_and_four [of sample_catalog ?ops "[10, 5, 8]" "[6, 7, 4]" 0 ?full 0]
    unfolding list_all_iff by blast
  have b: "map length (rebar_rows ?end) = [3, 1, 1, 1, 1, 1]"
    by (simp add: build_ui_eq add_rebar_row_def remove_rebar_row_def fresh_widget_def
        new_row_def Let_def)
  have c1: "(0::nat) < length (rebar_rows ?full)" and c2: "4 \<le> length (rebar_rows ?full ! 0)"
    by (simp_all add: edited_window_eq)
  have c3: "add_rebar_row 0 ?full = (?full, None)"
    using rows_between_one_and_four [of sample_catalog ?ops "[10, 5, 8]" "[6, 7, 4]" 0 ?full 0]
      c1 c2 by blast
  have d1: "(1::nat) < length (rebar_rows ?st)" and d2: "length (rebar_rows ?st ! 1) \<le> 1"
    by (simp_all add: build_ui_eq)
  have d3: "remove_rebar_row sample_catalog 1 2 ?st = (?st, None)"
    using rows_between_one_and_four [of sample_catalog ?ops "[10, 5, 8]" "[6, 7, 4]" 1 ?st 2]
      d1 d2 by blast
  show ?thesis using a b c1 c2 c3 d1 d2 d3 by blast
qed

section \<open>Reordering the bars of a section view\<close>

lemma design_set_orders: "design (set_orders sign orders v) = design v"
  by (simp add: set_orders_def)

lemma design_draw_views: "design (draw_views cat v) = design v"
  by (simp add: draw_views_def Let_def split: sum.splits del: collect_all_bars.simps)

lemma design_swap_bars: "design (swap_bars cat sign section i j v) = design v"
proof (cases "refill cat (design v) (if sign = ''pos'' then 3 else 0) (orders_of sign v)")
  case (Inl e)
  show ?thesis
    unfolding swap_bars_def Inl
    by (simp only: sum.case if_distrib [of design] if_cancel)
next
  case (Inr orders)
  show ?thesis
    unfolding swap_bars_def Inr Let_def
    by (simp only: sum.case if_distrib [of design] design_set_orders design_draw_views if_cancel)
qed

lemma design_move_bar: "design (move_bar cat sign section idx new_idx v) = design v"
proof (cases "refill cat (design v) (if sign = ''pos'' then 3 else 0) (orders_of sign v)")
  case (Inl e)
  show ?thesis
    unfolding move_bar_def Inl
    by (simp only: sum.case if_distrib [of design] if_cancel)
next
  case (Inr orders)
  show ?thesis
    unfolding move_bar_def Inr Let_def
    by (simp only: sum.case if_distrib [of design] design_set_orders design_draw_views if_cancel)
qed

lemma orders_of_set_orders: "orders_of sign (set_orders sign orders v) = orders"
  by (simp add: orders_of_def set_orders_def)

lemma refill_nonempty: "orders \<noteq> [] \<Longrightarrow> refill cat dw off orders = Inr orders"
  by (simp add: refill_def)

lemma refill_result_nonempty:
  assumes "refill cat dw off orders = Inr orders'"
  shows "orders' \<noteq> []"
  using assms
  by (auto simp: refill_def collect_orders_def split: if_splits sum.splits)

lemma orders_of_draw_views:
  assumes "orders_of sign v \<noteq> []"
  shows "orders_of sign (draw_views cat v) = orders_of sign v"
  using assms
  by (auto simp: draw_views_def orders_of_def refill_def Let_def
      simp del: collect_all_bars.simps split: sum.splits if_splits)

lemma shown_order_stored:
  assumes "orders_of sign v = orders" "orders \<noteq> []"
  shows "shown_order cat sign section v
    = (if length orders \<le> nat section then [] else orders ! nat section)"
  using assms by (simp add: shown_order_def refill_nonempty)

lemma shown_order_replaced:
  assumes "refill cat (design v) (if sign = ''pos'' then 3 else 0) (orders_of sign v) = Inr orders"
    and "nat section < length orders"
    and "mset lst' = mset (orders ! nat section)"
    and "v' = draw_views cat (set_orders sign (orders[nat section := lst']) v)"
  shows "mset (shown_order cat sign section v') = mset (shown_order cat sign section v)"
proof -
  have before: "shown_order cat sign section v = orders ! nat section"
    using assms(1,2) by (simp add: shown_order_def)
  have ne: "orders[nat section := lst'] \<noteq> []" using assms(2) by auto
  have "orders_of sign v' = orders[nat section := lst']"
    unfolding assms(4) using ne
    by (simp add: orders_of_draw_views orders_of_set_orders)
  from shown_order_stored [OF this ne]
  have "shown_order cat sign section v' = lst'" using assms(2) by simp
  then show ?thesis using before assms(3) by simp
qed

lemma shown_order_kept:
  assumes "refill cat (design v) (if sign = ''pos'' then 3 else 0) (orders_of sign v) = Inr orders"
  shows "shown_order cat sign section (set_orders sign orders v) = shown_order cat sign section v"
proof -
  have ne: "orders \<noteq> []" using assms by (rule refill_result_nonempty)
  have "shown_order cat sign section (set_orders sign orders v)
      = (if length orders \<le> nat section then [] else orders ! nat section)"
    by (rule shown_order_stored [OF orders_of_set_orders ne])
  then show ?thesis using assms by (simp add: shown_order_def)
qed

lemma mset_pop_insert:
  assumes "i < length lst"
  shows "mset (take n (take i lst @ drop (Suc i) lst) @ [lst ! i]
               @ drop n (take i lst @ drop (Suc i) lst)) = mset lst"
proof -
  let ?popped = "take i lst @ drop (Suc i) lst"
  have "mset (take n ?popped @ [lst ! i] @ drop n ?popped)
      = mset (take n ?popped @ drop n ?popped) + {#lst ! i#}"
    by simp
  also have "\<dots> = mset ?popped + {#lst ! i#}" by (simp only: append_take_drop_id)
  also have "\<dots> = mset (take i lst @ lst ! i # drop (Suc i) lst)" by simp
  also have "\<dots> = mset lst" using assms by (simp only: id_take_nth_drop [symmetric])
  finally show ?thesis .
qed

lemma shown_order_swap_bars:
  "mset (shown_order cat sign section (swap_bars cat sign section i j v))
    = mset (shown_order cat sign section v)"
proof (cases "(sign = ''pos'' \<or> sign = ''neg'') \<and> 0 \<le> section \<and> section < 3")
  case False
  then show ?thesis by (auto simp: swap_bars_def)
next
  case valid: True
  show ?thesis
  proof (cases "refill cat (design v) (if sign = ''pos'' then 3 else 0) (orders_of sign v)")
    case (Inl e)
    then show ?thesis using valid by (simp add: swap_bars_def)
  next
    case (Inr orders)
    show ?thesis
    proof (cases "nat section < length orders
        \<and> 0 \<le> i \<and> i < int (length (orders ! nat section))
        \<and> 0 \<le> j \<and> j < int (length (orders ! nat section))")
      case False
      then have "swap_bars cat sign section i j v = set_orders sign orders v"
        using valid Inr by (auto simp: swap_bars_def Let_def)
      then show ?thesis using shown_order_kept [OF Inr] by simp
    next
      case True
      define lst where "lst = orders ! nat section"
      have run: "swap_bars cat sign section i j v
          = draw_views cat (set_orders sign
              (orders[nat section := lst[nat i := lst ! nat j, nat j := lst ! nat i]]) v)"
        using valid Inr True by (auto simp: swap_bars_def Let_def lst_def)
      have "mset (lst[nat i := lst ! nat j, nat j := lst ! nat i]) = mset lst"
        using True by (intro mset_swap) (simp_all add: lst_def nat_less_iff)
      then show ?thesis
        using shown_order_replaced [OF Inr _ _ run] True by (simp add: lst_def)
    qed
  qed
qed

lemma shown_order_move_bar:
  "mset (shown_order cat sign section (move_bar cat sign section idx new_idx v))
    = mset (shown_order cat sign section v)"
proof (cases "(sign = ''pos'' \<or> sign = ''neg'') \<and> 0 \<le> section \<and> section < 3")
  case False
  then show ?thesis by (auto simp: move_bar_def)
next
  case valid: True
  show ?thesis
  proof (cases "refill cat (design v) (if sign = ''pos'' then 3 else 0) (orders_of sign v)")
    case (Inl e)
    then show ?thesis using valid by (simp add: move_bar_def)
  next
    case (Inr orders)
    define lst where "lst = orders ! nat section"
    define target where "target = max 0 (min new_idx (int (length lst) - 1))"
    show ?thesis
    proof (cases "nat section < length orders \<and> 0 \<le> idx \<and> idx < int (length lst)
        \<and> idx \<noteq> target")
      case False
      then have "move_bar cat sign section idx new_idx v = set_orders sign orders v"
        using valid Inr by (auto simp: move_bar_def Let_def lst_def target_def)
      then show ?thesis using shown_order_kept [OF Inr] by simp
    next
      case True
      define popped where "popped = take (nat idx) lst @ drop (Suc (nat idx)) lst"
      define moved where
        "moved = take (nat target) popped @ [lst ! nat idx] @ drop (nat target) popped"
      have run: "move_bar cat sign section idx new_idx v
          = draw_views cat (set_orders sign (orders[nat section := moved]) v)"
        using valid Inr True
        by (auto simp: move_bar_def Let_def lst_def target_def popped_def moved_def)
      have "nat idx < length lst" using True by (simp add: nat_less_iff)
      then have "mset moved = mset lst"
        unfolding moved_def popped_def by (rule mset_pop_insert)
      then show ?thesis
        using shown_order_replaced [OF Inr _ _ run] True by (simp add: lst_def)
    qed
  qed
qed

lemma sample_order:
  \<open>shown_order sample_catalog ''neg'' 0
     example_view
   = [''1/2"'', ''1/2"'', ''5/8"'']\<close>
  by (simp add: shown_order_def refill_def orders_of_def collect_orders_def collect_order_def
      example_view_def edited_window_eq new_row_def sample_catalog_def Let_def numeral_2_eq_2)

lemma sample_order_swapped:
  \<open>shown_order sample_catalog ''neg'' 0
     (swap_bars sample_catalog ''neg'' 0 0 2
       example_view)
   = [''5/8"'', ''1/2"'', ''1/2"'']\<close>
  by (simp add: shown_order_def swap_bars_def draw_views_def collect_bars_def collect_row_def
      set_orders_def
      refill_def orders_of_def collect_orders_def collect_order_def
      example_view_def edited_window_eq new_row_def sample_catalog_def diameter_def dict_get_def Let_def
      numeral_2_eq_2)

text \<open>
  Claim C8. A swap or a move of bars in the order list of a section view leaves the design
  window as it is, and with it the required areas, the areas of the design and the
  outcome of the width check; the order list that a drawing reads for the section
  afterwards is a permutation of the one before.
\<close>

theorem reordering_keeps_areas_and_widths:
  assumes "v' = swap_bars cat sign section i j v \<or> v' = move_bar cat sign section i j v"
  shows "design v' = design v
       \<and> required_areas cat (design v') = required_areas cat (design v)
       \<and> design_areas cat (design v') = design_areas cat (design v)
       \<and> update_design_as cat (design v') = update_design_as cat (design v)
       \<and> mset (shown_order cat sign section v') = mset (shown_order cat sign section v)"
proof -
  have d: "design v' = design v"
    using assms by (auto simp: design_swap_bars design_move_bar)
  have m: "mset (shown_order cat sign section v') = mset (shown_order cat sign section v)"
    using assms by (auto simp: shown_order_swap_bars shown_order_move_bar)
  show ?thesis using m by (simp add: d)
qed

theorem reordering_keeps_areas_and_widths_witness:
  \<open>shown_order sample_catalog ''neg'' 0 example_view = [''1/2"'', ''1/2"'', ''5/8"'']
   \<and> shown_order sample_catalog ''neg'' 0 (swap_bars sample_catalog ''neg'' 0 0 2 example_view)
       = [''5/8"'', ''1/2"'', ''1/2"'']
   \<and> design (swap_bars sample_catalog ''neg'' 0 0 2 example_view) = design example_view
   \<and> required_areas sample_catalog (design (swap_bars sample_catalog ''neg'' 0 0 2 example_view))
       = required_areas sample_catalog (design example_view)
   \<and> design_areas sample_catalog (design (swap_bars sample_catalog ''neg'' 0 0 2 example_view))
       = design_areas sample_catalog (design example_view)
   \<and> update_design_as sample_catalog (design (swap_bars sample_catalog ''neg'' 0 0 2 example_view))
       = update_design_as sample_catalog (design example_view)\<close>
  using reordering_keeps_areas_and_widths
    [of "swap_bars sample_catalog ''neg'' 0 0 2 example_view" sample_catalog "''neg''" 0 0 2
      example_view]
    sample_order sample_order_swapped
  by simp

end
